theory Spec2Isabelle
  imports
    Complex_Main
    "HOL-Library.AList"
    "HOL-Library.Char_ord"
    "HOL-Library.List_Lexorder"
    "HOL-Library.Product_Lexorder"
begin

section \<open>Values\<close>

text \<open>
  A Python float is an IEEE 754 double: a number, an infinity or NaN. A number is kept as
  the real it stands for (the sign of zero is not kept).
\<close>

datatype pyfloat = Fin real | NaN | PInf | NInf

text \<open>The number of binary digits of a positive integer.\<close>

function bit_length :: "int \<Rightarrow> nat" where
  "bit_length n = (if n \<le> 0 then 0 else Suc (bit_length (n div 2)))"
  by auto
termination
  by (relation "measure nat") auto

declare bit_length.simps [simp del]

text \<open>The binary exponent of a real other than 0: \<open>2\<^sup>e \<le> \<bar>x\<bar> < 2\<^sup>e\<^sup>+\<^sup>1\<close>.\<close>

definition exponent :: "real \<Rightarrow> int" where
  "exponent x =
     (if 1 \<le> \<bar>x\<bar> then int (bit_length \<lfloor>\<bar>x\<bar>\<rfloor>) - 1
      else - int (bit_length (\<lceil>1 / \<bar>x\<bar>\<rceil> - 1)))"

definition pow2 :: "int \<Rightarrow> real" where
  "pow2 k = (if 0 \<le> k then 2 ^ nat k else 1 / 2 ^ nat (- k))"

text \<open>The nearest integer, a tie going to the even one.\<close>

definition round_half_even :: "real \<Rightarrow> int" where
  "round_half_even x =
     (let f = \<lfloor>x\<rfloor>; r = x - of_int f
      in if r < 1 / 2 then f else if 1 / 2 < r then f + 1 else if even f then f else f + 1)"

text \<open>
  Rounding to the nearest double, ties to even: 53 significant bits, and below
  \<open>2\<^sup>-\<^sup>1\<^sup>0\<^sup>2\<^sup>2\<close> the fixed spacing \<open>2\<^sup>-\<^sup>1\<^sup>0\<^sup>7\<^sup>4\<close> of the subnormal numbers. \<open>rnd\<close> leaves the
  exponent unbounded above; \<open>as_float\<close> is the result of a float operation whose exact value
  is \<open>x\<close>, an infinity when the rounded value reaches \<open>2\<^sup>1\<^sup>0\<^sup>2\<^sup>4\<close>.
\<close>

definition rnd :: "real \<Rightarrow> real" where
  "rnd x =
     (if x = 0 then 0
      else (let q = pow2 (max (exponent x) (- 1022) - 52)
            in of_int (round_half_even (x / q)) * q))"

definition as_float :: "real \<Rightarrow> pyfloat" where
  "as_float x = (if 1024 \<le> exponent (rnd x) then (if 0 < x then PInf else NInf) else Fin (rnd x))"

text \<open>Float addition, and the division of a float by a positive number.\<close>

fun fadd :: "pyfloat \<Rightarrow> pyfloat \<Rightarrow> pyfloat" where
  "fadd (Fin a) (Fin b) = as_float (a + b)"
| "fadd NaN y = NaN"
| "fadd x NaN = NaN"
| "fadd PInf NInf = NaN"
| "fadd NInf PInf = NaN"
| "fadd PInf y = PInf"
| "fadd x PInf = PInf"
| "fadd NInf y = NInf"
| "fadd x NInf = NInf"

fun fdiv :: "pyfloat \<Rightarrow> real \<Rightarrow> pyfloat" where
  "fdiv (Fin a) c = as_float (a / c)"
| "fdiv x c = x"

text \<open>The float sum of a list of numbers, added one after the other from the left.\<close>

definition row_order_sum :: "real list \<Rightarrow> pyfloat" where
  "row_order_sum xs = foldl fadd (Fin 0) (map Fin xs)"

text \<open>
  Exceptions that can reach the handlers of \<^verbatim>\<open>upload\<close>. \<open>str(e)\<close> is the library's text
  and is not modelled: a response that embeds it carries the exception itself.
\<close>

datatype py_exception =
    EmptyDataError
  | ParserError
  | TypeError
  | ValueError
  | IntegrityError
  | PermissionError

text \<open>
  A cell of the frame that \<^verbatim>\<open>pd.read_csv\<close> returns, as pandas classified it:
  \<open>Number x s\<close> is a number, the double \<open>x\<close>, whose Python text (\<open>str\<close>) is \<open>s\<close>;
  \<open>Missing\<close> is an empty or NA cell (pandas reads it as NaN);
  \<open>Text s\<close> is any other cell, kept as the string \<open>s\<close>. A column holding a \<open>Text\<close> cell
  has dtype object; a column of \<open>Number\<close> and \<open>Missing\<close> cells is numeric.
\<close>

datatype cell = Number real string | Missing | Text string

text \<open>
  The frame carries one operation of pandas with it: \<open>series_sum\<close> is the float sum that
  pandas computes of the numbers of a numeric column. How pandas orders the additions
  is its own; for a few values it adds them in row order, which is \<open>row_order_sum\<close>.
\<close>

record dataframe =
  columns :: "string list"
  rows :: "(string \<Rightarrow> cell) list"
  series_sum :: "real list \<Rightarrow> pyfloat"

text \<open>
  The uploaded file: its name and the outcome of \<^verbatim>\<open>pd.read_csv(file)\<close> on its bytes.
  pandas is not part of the repository; it raises \<open>EmptyDataError\<close> when the file has no
  header line to take columns from, and returns a frame (possibly with no rows) otherwise.
\<close>

record uploaded_file =
  file_name :: string
  read_csv :: "py_exception + dataframe"

section \<open>Models (\<^verbatim>\<open>src/api/models.py\<close>)\<close>

record equipment_dataset =
  pk :: nat
  name :: string
  uploaded_by :: string
  uploaded_at :: int
  file_field :: "nat option"
  total_count :: nat
  avg_flowrate :: pyfloat
  avg_pressure :: pyfloat
  avg_temperature :: pyfloat

record equipment =
  dataset :: nat
  eq_name :: string
  eq_type :: string
  flowrate :: pyfloat
  pressure :: pyfloat
  temperature :: pyfloat

text \<open>What the pruning loop does to the outside world, in the order it does it.\<close>

datatype effect = FileDeleted nat | RowDeleted nat

text \<open>
  The database and the file storage. Tables are lists in insertion order; an \<open>equipment\<close>
  row is paired with its primary key. \<open>storage\<close> holds the keys of the files that exist.
  Two properties of the environment are part of the state because the code's outcome
  depends on them: \<open>nan_ok\<close> says whether the database accepts NaN in a float column
  (PostgreSQL does, SQLite binds it as NULL and the NOT NULL column rejects it), and
  \<open>locked\<close> holds the storage keys whose deletion raises.
\<close>

record store =
  datasets :: "equipment_dataset list"
  equipments :: "(nat \<times> equipment) list"
  storage :: "nat set"
  next_dataset_pk :: nat
  next_equipment_pk :: nat
  next_file :: nat
  nan_ok :: bool
  locked :: "nat set"
  log :: "effect list"

section \<open>Serializers (\<^verbatim>\<open>src/api/serializers.py\<close>)\<close>

record equipment_data =
  e_id :: nat
  e_name :: string
  e_type :: string
  e_flowrate :: pyfloat
  e_pressure :: pyfloat
  e_temperature :: pyfloat

record dataset_summary_data =
  s_id :: nat
  s_name :: string
  s_uploaded_at :: int
  s_total_count :: nat
  s_avg_flowrate :: pyfloat
  s_avg_pressure :: pyfloat
  s_avg_temperature :: pyfloat
  s_equipment_count :: nat

record dataset_detail_data =
  d_id :: nat
  d_name :: string
  d_uploaded_at :: int
  d_total_count :: nat
  d_avg_flowrate :: pyfloat
  d_avg_pressure :: pyfloat
  d_avg_temperature :: pyfloat
  d_equipments :: "equipment_data list"

text \<open>\<^verbatim>\<open>dataset.equipments.all()\<close>: the reverse relation, a query on the current table.\<close>

definition equipments_of :: "store \<Rightarrow> equipment_dataset \<Rightarrow> (nat \<times> equipment) list" where
  "equipments_of s d = filter (\<lambda>(k, e). dataset e = pk d) (equipments s)"

definition EquipmentSerializer :: "nat \<times> equipment \<Rightarrow> equipment_data" where
  "EquipmentSerializer r =
     \<lparr>e_id = fst r, e_name = eq_name (snd r), e_type = eq_type (snd r),
      e_flowrate = flowrate (snd r), e_pressure = pressure (snd r),
      e_temperature = temperature (snd r)\<rparr>"

definition DatasetSummarySerializer :: "store \<Rightarrow> equipment_dataset \<Rightarrow> dataset_summary_data" where
  "DatasetSummarySerializer s obj =
     \<lparr>s_id = pk obj, s_name = name obj, s_uploaded_at = uploaded_at obj,
      s_total_count = total_count obj, s_avg_flowrate = avg_flowrate obj,
      s_avg_pressure = avg_pressure obj, s_avg_temperature = avg_temperature obj,
      s_equipment_count = length (equipments_of s obj)\<rparr>"

definition DatasetDetailSerializer :: "store \<Rightarrow> equipment_dataset \<Rightarrow> dataset_detail_data" where
  "DatasetDetailSerializer s obj =
     \<lparr>d_id = pk obj, d_name = name obj, d_uploaded_at = uploaded_at obj,
      d_total_count = total_count obj, d_avg_flowrate = avg_flowrate obj,
      d_avg_pressure = avg_pressure obj, d_avg_temperature = avg_temperature obj,
      d_equipments = map EquipmentSerializer (equipments_of s obj)\<rparr>"

section \<open>The upload view (\<^verbatim>\<open>DatasetViewSet.upload\<close>)\<close>

text \<open>
  The responses of \<^verbatim>\<open>upload\<close>. \<open>Created\<close> is the 201 response with the detail
  serialization; every other one is a 400 response:
  \<^item> \<open>NoFileProvided\<close>: \<^verbatim>\<open>{'error': 'No file provided'}\<close>;
  \<^item> \<open>OnlyCsvFilesAllowed\<close>: \<^verbatim>\<open>{'error': 'Only CSV files are allowed'}\<close>;
  \<^item> \<open>MissingRequiredColumns msg req found\<close>: the keys \<^verbatim>\<open>error\<close>,
    \<^verbatim>\<open>required_columns\<close> and \<^verbatim>\<open>found_columns\<close>;
  \<^item> \<open>CsvFileIsEmpty\<close>: \<^verbatim>\<open>{'error': 'CSV file is empty'}\<close>;
  \<^item> \<open>ErrorProcessingCsv e\<close>: \<^verbatim>\<open>{'error': f'Error processing CSV: {str(e)}'}\<close>.
\<close>

datatype response =
    Created dataset_detail_data
  | NoFileProvided
  | OnlyCsvFilesAllowed
  | MissingRequiredColumns string "string list" "string list"
  | CsvFileIsEmpty
  | ErrorProcessingCsv py_exception

definition required_cols :: "string list" where
  "required_cols = [''Equipment Name'', ''Type'', ''Flowrate'', ''Pressure'', ''Temperature'']"

definition endswith :: "string \<Rightarrow> string \<Rightarrow> bool" where
  "endswith s suf = (length suf \<le> length s \<and> drop (length s - length suf) s = suf)"

fun join :: "string \<Rightarrow> string list \<Rightarrow> string" where
  "join sep [] = []"
| "join sep [x] = x"
| "join sep (x # y # ys) = x @ sep @ join sep (y # ys)"

text \<open>\<^verbatim>\<open>df[c]\<close>: the column \<open>c\<close> of the frame, in row order.\<close>

definition column :: "dataframe \<Rightarrow> string \<Rightarrow> cell list" where
  "column df c = map (\<lambda>row. row c) (rows df)"

fun is_text :: "cell \<Rightarrow> bool" where
  "is_text (Text s) = True"
| "is_text c = False"

fun numbers :: "cell list \<Rightarrow> real list" where
  "numbers [] = []"
| "numbers (Number x s # cs) = x # numbers cs"
| "numbers (c # cs) = numbers cs"

text \<open>
  \<^verbatim>\<open>Series.mean()\<close> of pandas: on an object column holding strings it raises
  \<open>TypeError\<close>; on a numeric column it skips the missing values and divides the float sum
  of the others by their number, in float arithmetic, and is NaN when there is none (an
  empty column included). \<open>sm\<close> is the sum operation of the frame.
\<close>

definition mean :: "(real list \<Rightarrow> pyfloat) \<Rightarrow> cell list \<Rightarrow> py_exception + pyfloat" where
  "mean sm cs =
     (if list_ex is_text cs then Inl TypeError
      else if numbers cs = [] then Inr NaN
      else Inr (fdiv (sm (numbers cs)) (rnd (real (length (numbers cs))))))"

text \<open>\<^verbatim>\<open>float(row[c])\<close> on a cell, and the string a \<^verbatim>\<open>CharField\<close> stores for one.\<close>

fun py_float :: "cell \<Rightarrow> py_exception + pyfloat" where
  "py_float (Number x s) = Inr (Fin x)"
| "py_float Missing = Inr NaN"
| "py_float (Text s) = Inl ValueError"

fun py_str :: "cell \<Rightarrow> string" where
  "py_str (Number x s) = s"
| "py_str Missing = ''nan''"
| "py_str (Text s) = s"

text \<open>
  \<^verbatim>\<open>EquipmentDataset.objects.create(...)\<close>. The \<^verbatim>\<open>FileField\<close> commits the uploaded file
  to the storage while the INSERT is being prepared, so the file exists even when the
  database then rejects the row.
\<close>

definition create ::
  "store \<Rightarrow> string \<Rightarrow> string \<Rightarrow> int \<Rightarrow> nat \<Rightarrow> pyfloat \<Rightarrow> pyfloat \<Rightarrow> pyfloat
    \<Rightarrow> (py_exception + equipment_dataset) \<times> store" where
  "create s nm usr now cnt af ap ate =
     (let key = next_file s;
          s1 = s\<lparr>storage := insert key (storage s), next_file := Suc key\<rparr>
      in if \<not> nan_ok s \<and> (af = NaN \<or> ap = NaN \<or> ate = NaN) then (Inl IntegrityError, s1)
         else
           (let d = \<lparr>pk = next_dataset_pk s, name = nm, uploaded_by = usr, uploaded_at = now,
                     file_field = Some key, total_count = cnt, avg_flowrate = af,
                     avg_pressure = ap, avg_temperature = ate\<rparr>
            in (Inr d, s1\<lparr>datasets := datasets s @ [d],
                          next_dataset_pk := Suc (next_dataset_pk s)\<rparr>)))"

text \<open>The loop of lines 90-99: one unsaved \<^verbatim>\<open>Equipment\<close> per row, in row order.\<close>

fun equipment_objects ::
  "equipment_dataset \<Rightarrow> (string \<Rightarrow> cell) list \<Rightarrow> py_exception + equipment list" where
  "equipment_objects d [] = Inr []"
| "equipment_objects d (row # rest) =
     (case py_float (row ''Flowrate'') of Inl e \<Rightarrow> Inl e | Inr fl \<Rightarrow>
      case py_float (row ''Pressure'') of Inl e \<Rightarrow> Inl e | Inr pr \<Rightarrow>
      case py_float (row ''Temperature'') of Inl e \<Rightarrow> Inl e | Inr te \<Rightarrow>
      case equipment_objects d rest of Inl e \<Rightarrow> Inl e | Inr objs \<Rightarrow>
        Inr (\<lparr>dataset = pk d, eq_name = py_str (row ''Equipment Name''),
              eq_type = py_str (row ''Type''), flowrate = fl, pressure = pr,
              temperature = te\<rparr> # objs))"

definition has_nan :: "equipment \<Rightarrow> bool" where
  "has_nan e = (flowrate e = NaN \<or> pressure e = NaN \<or> temperature e = NaN)"

text \<open>\<^verbatim>\<open>Equipment.objects.bulk_create(...)\<close>: one INSERT, all rows or none.\<close>

definition bulk_create :: "store \<Rightarrow> equipment list \<Rightarrow> (py_exception + unit) \<times> store" where
  "bulk_create s objs =
     (if \<not> nan_ok s \<and> list_ex has_nan objs then (Inl IntegrityError, s)
      else (Inr (),
            s\<lparr>equipments :=
                 equipments s @
                 zip [next_equipment_pk s ..< next_equipment_pk s + length objs] objs,
              next_equipment_pk := next_equipment_pk s + length objs\<rparr>))"

text \<open>
  \<^verbatim>\<open>EquipmentDataset.objects.all()\<close> with \<^verbatim>\<open>Meta.ordering = ['-uploaded_at']\<close>. Rows
  with equal timestamps come in the order the database likes; here, insertion order.
\<close>

definition objects_all :: "store \<Rightarrow> equipment_dataset list" where
  "objects_all s = sort_key (\<lambda>d. - uploaded_at d) (datasets s)"

text \<open>
  \<^verbatim>\<open>old_dataset.file.delete()\<close>: nothing when the field is empty; otherwise the storage
  deletes the file (or raises), the field is cleared and the instance is saved.
\<close>

definition file_delete :: "equipment_dataset \<Rightarrow> store \<Rightarrow> (py_exception + unit) \<times> store" where
  "file_delete d s =
     (case file_field d of
        None \<Rightarrow> (Inr (), s)
      | Some key \<Rightarrow>
          if key \<in> locked s then (Inl PermissionError, s)
          else (Inr (),
                s\<lparr>storage := storage s - {key},
                  datasets := map (\<lambda>r. if pk r = pk d then d\<lparr>file_field := None\<rparr> else r)
                                (datasets s),
                  log := log s @ [FileDeleted key]\<rparr>))"

text \<open>\<^verbatim>\<open>old_dataset.delete()\<close>: the row goes, and its equipment rows by cascade.\<close>

definition model_delete :: "equipment_dataset \<Rightarrow> store \<Rightarrow> store" where
  "model_delete d s =
     s\<lparr>datasets := filter (\<lambda>r. pk r \<noteq> pk d) (datasets s),
       equipments := filter (\<lambda>(k, e). dataset e \<noteq> pk d) (equipments s),
       log := log s @ [RowDeleted (pk d)]\<rparr>"

text \<open>The loop of lines 105-107 over the datasets queried at line 104.\<close>

fun delete_old :: "equipment_dataset list \<Rightarrow> store \<Rightarrow> (py_exception + unit) \<times> store" where
  "delete_old [] s = (Inr (), s)"
| "delete_old (old_dataset # rest) s =
     (case file_delete old_dataset s of
        (Inl e, s1) \<Rightarrow> (Inl e, s1)
      | (Inr u, s1) \<Rightarrow> delete_old rest (model_delete old_dataset s1))"

text \<open>Lines 103-107, "Keep only last 5 datasets".\<close>

definition keep_last_5 :: "store \<Rightarrow> (py_exception + unit) \<times> store" where
  "keep_last_5 s = delete_old (drop 5 (objects_all s)) s"

text \<open>Lines 69-73: the statistics, computed before anything is stored.\<close>

definition statistics :: "dataframe \<Rightarrow> py_exception + nat \<times> pyfloat \<times> pyfloat \<times> pyfloat" where
  "statistics df =
     (case mean (series_sum df) (column df ''Flowrate'') of Inl e \<Rightarrow> Inl e | Inr avg_fl \<Rightarrow>
      case mean (series_sum df) (column df ''Pressure'') of Inl e \<Rightarrow> Inl e | Inr avg_pr \<Rightarrow>
      case mean (series_sum df) (column df ''Temperature'') of Inl e \<Rightarrow> Inl e | Inr avg_te \<Rightarrow>
        Inr (length (rows df), avg_fl, avg_pr, avg_te))"

text \<open>Lines 78-110: create the dataset, store the rows, prune, serialize.\<close>

definition store_and_prune ::
  "store \<Rightarrow> int \<Rightarrow> string \<Rightarrow> string \<Rightarrow> dataframe \<Rightarrow> nat \<times> pyfloat \<times> pyfloat \<times> pyfloat
    \<Rightarrow> (py_exception + response) \<times> store" where
  "store_and_prune s now usr nm df st =
     (case st of (cnt, avg_fl, avg_pr, avg_te) \<Rightarrow>
      case create s nm usr now cnt avg_fl avg_pr avg_te of
        (Inl e, s1) \<Rightarrow> (Inl e, s1)
      | (Inr d, s1) \<Rightarrow>
          (case equipment_objects d (rows df) of
             Inl e \<Rightarrow> (Inl e, s1)
           | Inr objs \<Rightarrow>
               (case bulk_create s1 objs of
                  (Inl e, s2) \<Rightarrow> (Inl e, s2)
                | (Inr u, s2) \<Rightarrow>
                    (case keep_last_5 s2 of
                       (Inl e, s3) \<Rightarrow> (Inl e, s3)
                     | (Inr v, s3) \<Rightarrow> (Inr (Created (DatasetDetailSerializer s3 d)), s3)))))"

text \<open>The body of the \<^verbatim>\<open>try\<close> (lines 55-110): a response, or the exception raised.\<close>

definition upload_try ::
  "store \<Rightarrow> int \<Rightarrow> string \<Rightarrow> uploaded_file \<Rightarrow> (py_exception + response) \<times> store" where
  "upload_try s now usr f =
     (case read_csv f of
        Inl e \<Rightarrow> (Inl e, s)
      | Inr df \<Rightarrow>
          (let missing_cols = filter (\<lambda>col. col \<notin> set (columns df)) required_cols
           in if missing_cols \<noteq> [] then
                (Inr (MissingRequiredColumns
                        (''Missing required columns: '' @ join '', '' missing_cols)
                        required_cols (columns df)), s)
              else
                (case statistics df of
                   Inl e \<Rightarrow> (Inl e, s)
                 | Inr st \<Rightarrow> store_and_prune s now usr (file_name f) df st)))"

text \<open>
  \<^verbatim>\<open>upload\<close>: \<open>now\<close> is the clock reading that \<^verbatim>\<open>auto_now_add\<close> takes, \<open>usr\<close> the
  authenticated user, \<open>file\<close> is \<^verbatim>\<open>request.FILES.get('file')\<close> (a file with an empty name
  is falsy). The two handlers turn an exception of the body into a 400 response.
\<close>

definition upload :: "store \<Rightarrow> int \<Rightarrow> string \<Rightarrow> uploaded_file option \<Rightarrow> response \<times> store" where
  "upload s now usr file =
     (case file of
        None \<Rightarrow> (NoFileProvided, s)
      | Some f \<Rightarrow>
          if file_name f = [] then (NoFileProvided, s)
          else if \<not> endswith (file_name f) ''.csv'' then (OnlyCsvFilesAllowed, s)
          else
            (case upload_try s now usr f of
               (Inr resp, s') \<Rightarrow> (resp, s')
             | (Inl e, s') \<Rightarrow>
                 if e = EmptyDataError then (CsvFileIsEmpty, s')
                 else (ErrorProcessingCsv e, s')))"

section \<open>The read views (\<^verbatim>\<open>summary\<close>, \<^verbatim>\<open>history\<close>, \<^verbatim>\<open>retrieve\<close>, \<^verbatim>\<open>list\<close>)\<close>

text \<open>
  A read view returns its payload, or 404 when \<^verbatim>\<open>get_object\<close> finds no row. The views
  return the store as well, so that what they leave of it can be stated.
\<close>

datatype 'a http = Ok 'a | NotFound

definition get_object :: "store \<Rightarrow> nat \<Rightarrow> equipment_dataset option" where
  "get_object s k = find (\<lambda>d. pk d = k) (datasets s)"

text \<open>
  The dictionary \<^verbatim>\<open>type_distribution\<close> is a list of pairs in insertion order:
  \<open>AList.update\<close> replaces the value of a key that is there and appends a new key.
  One step is \<^verbatim>\<open>d[t] = d.get(t, 0) + 1\<close>.
\<close>

definition bump :: "(string \<times> nat) list \<Rightarrow> string \<Rightarrow> (string \<times> nat) list" where
  "bump d t = AList.update t ((case map_of d t of None \<Rightarrow> 0 | Some c \<Rightarrow> c) + 1) d"

fun count_types :: "(string \<times> nat) list \<Rightarrow> string list \<Rightarrow> (string \<times> nat) list" where
  "count_types d [] = d"
| "count_types d (t # ts) = count_types (bump d t) ts"

definition type_distribution :: "(nat \<times> equipment) list \<Rightarrow> (string \<times> nat) list" where
  "type_distribution eqs = count_types [] (map (\<lambda>eq. eq_type (snd eq)) eqs)"

text \<open>
  \<^verbatim>\<open>round(x, n)\<close> on a float: the nearest multiple of \<open>10\<^sup>-\<^sup>n\<close>, a tie going to the
  even one; NaN and the infinities stay as they are.
\<close>

fun py_round :: "pyfloat \<Rightarrow> nat \<Rightarrow> pyfloat" where
  "py_round (Fin x) n = Fin (of_int (round_half_even (x * 10 ^ n)) / 10 ^ n)"
| "py_round x n = x"

record summary_data =
  m_id :: nat
  m_name :: string
  m_uploaded_at :: int
  m_total_count :: nat
  m_flowrate :: pyfloat
  m_pressure :: pyfloat
  m_temperature :: pyfloat
  m_type_distribution :: "(string \<times> nat) list"
  m_equipments :: "equipment_data list"

definition summary :: "store \<Rightarrow> nat \<Rightarrow> summary_data http \<times> store" where
  "summary s k =
     (case get_object s k of
        None \<Rightarrow> (NotFound, s)
      | Some d \<Rightarrow>
          (let eqs = equipments_of s d
           in (Ok \<lparr>m_id = pk d, m_name = name d, m_uploaded_at = uploaded_at d,
                    m_total_count = total_count d,
                    m_flowrate = py_round (avg_flowrate d) 2,
                    m_pressure = py_round (avg_pressure d) 2,
                    m_temperature = py_round (avg_temperature d) 2,
                    m_type_distribution = type_distribution eqs,
                    m_equipments = map EquipmentSerializer eqs\<rparr>, s)))"

definition history :: "store \<Rightarrow> dataset_summary_data list \<times> store" where
  "history s = (map (DatasetSummarySerializer s) (take 5 (objects_all s)), s)"

text \<open>\<^verbatim>\<open>list\<close> and \<^verbatim>\<open>retrieve\<close> are the \<^verbatim>\<open>ModelViewSet\<close>'s, with \<^verbatim>\<open>get_serializer_class\<close>.\<close>

definition list_view :: "store \<Rightarrow> dataset_summary_data list \<times> store" where
  "list_view s = (map (DatasetSummarySerializer s) (objects_all s), s)"

definition retrieve :: "store \<Rightarrow> nat \<Rightarrow> dataset_detail_data http \<times> store" where
  "retrieve s k =
     (case get_object s k of
        None \<Rightarrow> (NotFound, s)
      | Some d \<Rightarrow> (Ok (DatasetDetailSerializer s d), s))"

section \<open>The report (\<^verbatim>\<open>DatasetViewSet.generate_pdf\<close>)\<close>

text \<open>
  The document is the sequence of calls made on the canvas. A drawn text is kept as the
  pieces of its f-string: a literal, an integer, a float with its number of decimals
  (\<^verbatim>\<open>{x:.2f}\<close>), a timestamp with its \<^verbatim>\<open>strftime\<close> format. Coordinates are points.
\<close>

datatype frag = Lit string | IntF nat | FloatF nat pyfloat | TimeF string int

datatype canvas_op =
    SetFont string real
  | DrawString real real "frag list"
  | Line real real real real
  | ShowPage
  | Save

text \<open>
  \<^verbatim>\<open>inch\<close> is 72.0 and the page is \<^verbatim>\<open>letter\<close>, 11 inches high. The coordinates are floats:
  \<open>inches k\<close> is \<^verbatim>\<open>k*inch\<close> for the literal \<open>k\<close> (the double nearest to it), and
  \<open>fsub y h\<close> is \<^verbatim>\<open>y - h\<close>; both round to the nearest double. (Coordinates stay far from
  the range where a double overflows.)
\<close>

definition inch :: real where
  "inch = 72"

definition height :: real where
  "height = 792"

definition inches :: "real \<Rightarrow> real" where
  "inches k = rnd (rnd k * inch)"

definition fsub :: "real \<Rightarrow> real \<Rightarrow> real" where
  "fsub y h = rnd (y - h)"

text \<open>
  Lines 164-195: title, dataset info, summary statistics, heading of the distribution;
  with the value of \<^verbatim>\<open>y\<close> after line 195.
\<close>

definition draw_head :: "equipment_dataset \<Rightarrow> canvas_op list \<times> real" where
  "draw_head d =
     (let y1 = fsub height (inches 1.5);
          y2 = fsub y1 (inches 0.3);
          y3 = fsub y2 (inches 0.3);
          y4 = fsub y3 (inches 0.5);
          y5 = fsub y4 (inches 0.3);
          y6 = fsub y5 (inches 0.25);
          y7 = fsub y6 (inches 0.25);
          y8 = fsub y7 (inches 0.25);
          y9 = fsub y8 (inches 0.5)
      in ([SetFont ''Helvetica-Bold'' 20,
           DrawString (inches 1) (fsub height (inches 1)) [Lit ''Equipment Analysis Report''],
           SetFont ''Helvetica'' 12,
           DrawString (inches 1) y1 [Lit ''Dataset: '', Lit (name d)],
           DrawString (inches 1) y2
             [Lit ''Uploaded: '', TimeF ''%Y-%m-%d %H:%M:%S'' (uploaded_at d)],
           DrawString (inches 1) y3 [Lit ''Uploaded by: '', Lit (uploaded_by d)],
           SetFont ''Helvetica-Bold'' 14,
           DrawString (inches 1) y4 [Lit ''Summary Statistics''],
           SetFont ''Helvetica'' 11,
           DrawString (inches 1) y5 [Lit ''Total Equipment Count: '', IntF (total_count d)],
           DrawString (inches 1) y6 [Lit ''Average Flowrate: '', FloatF 2 (avg_flowrate d)],
           DrawString (inches 1) y7 [Lit ''Average Pressure: '', FloatF 2 (avg_pressure d)],
           DrawString (inches 1) y8
             [Lit ''Average Temperature: '', FloatF 2 (avg_temperature d)],
           SetFont ''Helvetica-Bold'' 14,
           DrawString (inches 1) y9 [Lit ''Equipment Type Distribution'']],
          y9))"

text \<open>Lines 203-205: one line per type, over \<^verbatim>\<open>sorted(type_dist.items())\<close>.\<close>

fun draw_types :: "(string \<times> nat) list \<Rightarrow> real \<Rightarrow> canvas_op list \<times> real" where
  "draw_types [] y = ([], y)"
| "draw_types (item # rest) y =
     (case draw_types rest (fsub y (inches 0.25)) of
        (ops, y') \<Rightarrow>
          (DrawString (inches 1.2) y [Lit (fst item), Lit '': '', IntF (snd item)] # ops, y'))"

text \<open>Lines 207-229: the heading of the table, on a new page when little room is left.\<close>

definition draw_table_head :: "real \<Rightarrow> canvas_op list \<times> real" where
  "draw_table_head y0 =
     (let y1 = fsub y0 (inches 0.3);
          brk = (if y1 < inches 2 then [ShowPage] else []);
          y2 = (if y1 < inches 2 then fsub height (inches 1) else y1);
          y3 = fsub y2 (inches 0.3);
          y4 = fsub y3 (inches 0.05)
      in (brk @
          [SetFont ''Helvetica-Bold'' 14,
           DrawString (inches 1) y2 [Lit ''Equipment Details''],
           SetFont ''Helvetica-Bold'' 9,
           DrawString (inches 1) y3 [Lit ''Name''],
           DrawString (inches 3) y3 [Lit ''Type''],
           DrawString (inches 4.5) y3 [Lit ''Flowrate''],
           DrawString (inches 5.5) y3 [Lit ''Pressure''],
           DrawString (inches 6.5) y3 [Lit ''Temp''],
           Line (inches 1) y4 (inches 7.5) y4,
           SetFont ''Helvetica'' 8],
          fsub y4 (inches 0.2)))"

text \<open>Lines 230-241: one table line per equipment, a new page when \<^verbatim>\<open>y < 1*inch\<close>.\<close>

fun draw_rows :: "(nat \<times> equipment) list \<Rightarrow> real \<Rightarrow> canvas_op list" where
  "draw_rows [] y = []"
| "draw_rows (eq # rest) y =
     (let brk = (if y < inches 1 then [ShowPage, SetFont ''Helvetica'' 8] else []);
          y1 = (if y < inches 1 then fsub height (inches 1) else y)
      in brk @
         [DrawString (inches 1) y1 [Lit (take 20 (eq_name (snd eq)))],
          DrawString (inches 3) y1 [Lit (eq_type (snd eq))],
          DrawString (inches 4.5) y1 [FloatF 1 (flowrate (snd eq))],
          DrawString (inches 5.5) y1 [FloatF 1 (pressure (snd eq))],
          DrawString (inches 6.5) y1 [FloatF 1 (temperature (snd eq))]] @
         draw_rows rest (fsub y1 (inches 0.2)))"

text \<open>Lines 243-248.\<close>

definition draw_foot :: "canvas_op list" where
  "draw_foot =
     [SetFont ''Helvetica-Oblique'' 8,
      DrawString (inches 1) (inches 0.5) [Lit ''Generated by Chemical Equipment Visualizer''],
      ShowPage,
      Save]"

text \<open>The \<^verbatim>\<open>FileResponse\<close>: the canvas calls that made the buffer, and the file name.\<close>

record file_response =
  content :: "canvas_op list"
  filename :: "frag list"

text \<open>
  \<^verbatim>\<open>generate_pdf\<close>. Between the head and the distribution lines come lines 201 and 202:
  \<^verbatim>\<open>y\<close> goes down by 0.3 inch and the font is set.
\<close>

definition generate_pdf :: "store \<Rightarrow> nat \<Rightarrow> file_response http \<times> store" where
  "generate_pdf s k =
     (case get_object s k of
        None \<Rightarrow> (NotFound, s)
      | Some d \<Rightarrow>
          (let eqs = equipments_of s d;
               type_dist = type_distribution eqs
           in case draw_head d of
                (head_ops, y0) \<Rightarrow>
                  (case draw_types (sort type_dist) (fsub y0 (inches 0.3)) of
                     (type_ops, y) \<Rightarrow>
                       (case draw_table_head y of
                          (table_ops, y') \<Rightarrow>
                            (Ok \<lparr>content = head_ops @ [SetFont ''Helvetica'' 11] @ type_ops
                                            @ table_ops @ draw_rows eqs y' @ draw_foot,
                                  filename =
                                    [Lit ''equipment_report_'', IntF (pk d), Lit ''.pdf'']\<rparr>,
                             s)))))"

section \<open>Notions used in the statements\<close>

text \<open>What pruning one dataset does outside: its file goes first, then its row.\<close>

definition effects_of :: "equipment_dataset \<Rightarrow> effect list" where
  "effects_of d =
     (case file_field d of None \<Rightarrow> [] | Some key \<Rightarrow> [FileDeleted key]) @ [RowDeleted (pk d)]"

text \<open>The storage keys that a list of dataset rows refers to.\<close>

definition file_keys :: "equipment_dataset list \<Rightarrow> nat set" where
  "file_keys ds = {key. Some key \<in> file_field ` set ds}"

text \<open>
  What the database guarantees of its tables: the primary keys of the datasets are unique
  and were handed out by the counter, and so were the keys that equipment rows refer to.
\<close>

definition wf_store :: "store \<Rightarrow> bool" where
  "wf_store s =
     (distinct (map pk (datasets s)) \<and>
      list_all (\<lambda>d. pk d < next_dataset_pk s) (datasets s) \<and>
      list_all (\<lambda>r. dataset (snd r) < next_dataset_pk s) (equipments s))"

text \<open>The value of a numeric cell, and whether a cell is one.\<close>

fun is_number :: "cell \<Rightarrow> bool" where
  "is_number (Number x s) = True"
| "is_number c = False"

fun cell_value :: "cell \<Rightarrow> real" where
  "cell_value (Number x s) = x"
| "cell_value c = 0"

text \<open>The file of a dataset is one whose deletion raises.\<close>

definition file_locked :: "store \<Rightarrow> equipment_dataset \<Rightarrow> bool" where
  "file_locked s d = (case file_field d of None \<Rightarrow> False | Some key \<Rightarrow> key \<in> locked s)"

text \<open>
  The old datasets that the loop of lines 105-107 reaches before the first one whose file
  is locked, when the newest dataset has just been added to the store \<open>s\<close>: the loop runs
  over the datasets of \<open>s\<close> beyond its four newest.
\<close>

definition pruned :: "store \<Rightarrow> equipment_dataset list" where
  "pruned s = takeWhile (\<lambda>d. \<not> file_locked s d) (drop 4 (objects_all s))"

text \<open>A row whose three numeric cells are numbers, and the arithmetic mean of a column:
  the sum of its values in row order, divided by the number of rows.\<close>

definition numeric_row :: "(string \<Rightarrow> cell) \<Rightarrow> bool" where
  "numeric_row row =
     (is_number (row ''Flowrate'') \<and> is_number (row ''Pressure'') \<and>
      is_number (row ''Temperature''))"

definition column_mean :: "dataframe \<Rightarrow> string \<Rightarrow> real" where
  "column_mean df c =
     sum_list (map (\<lambda>row. cell_value (row c)) (rows df)) / real (length (rows df))"

text \<open>
  The float mean of a column of numbers: the sum that pandas computes of its values,
  divided in float arithmetic by the number of rows.
\<close>

definition float_mean :: "dataframe \<Rightarrow> string \<Rightarrow> pyfloat" where
  "float_mean df c =
     fdiv (series_sum df (map (\<lambda>row. cell_value (row c)) (rows df)))
       (rnd (real (length (rows df))))"

text \<open>
  \<open>r\<close> is \<open>x\<close> rounded to \<open>n\<close> decimals: a multiple of \<open>10\<^sup>-\<^sup>n\<close> at most half a unit of the
  last decimal away from \<open>x\<close>; NaN for NaN, an infinity for itself.
\<close>

definition rounded_to :: "nat \<Rightarrow> pyfloat \<Rightarrow> pyfloat \<Rightarrow> bool" where
  "rounded_to n x r =
     (case x of
        Fin v \<Rightarrow>
          (case r of
             Fin w \<Rightarrow> w * 10 ^ n = of_int \<lfloor>w * 10 ^ n\<rfloor> \<and> \<bar>w - v\<bar> * 10 ^ n \<le> 1 / 2
           | _ \<Rightarrow> False)
      | _ \<Rightarrow> r = x)"

text \<open>The labels of the distribution lines of a report: they alone start at 1.2 inch.\<close>

fun type_line :: "canvas_op \<Rightarrow> string option" where
  "type_line (DrawString x y [Lit t, Lit sep, IntF c]) = (if x = inches 1.2 then Some t else None)"
| "type_line opn = None"

text \<open>
  The report of a dataset without equipment rows and so without distribution lines, call
  by call: the title; the name, upload time and uploader; the summary statistics; the
  heading of the distribution and the font of its lines; the heading of the equipment
  table with its column titles and rule; the foot, the end of the page and the saving.
  The coordinates are the doubles that the float arithmetic of the view arrives at
  (the title of the table, for one, is drawn just below 450).
\<close>

definition empty_report :: "equipment_dataset \<Rightarrow> canvas_op list" where
  "empty_report d =
     [SetFont ''Helvetica-Bold'' 20,
      DrawString 72 720 [Lit ''Equipment Analysis Report''],
      SetFont ''Helvetica'' 12,
      DrawString 72 684 [Lit ''Dataset: '', Lit (name d)],
      DrawString 72 (5826532017910579 / 8796093022208)
        [Lit ''Uploaded: '', TimeF ''%Y-%m-%d %H:%M:%S'' (uploaded_at d)],
      DrawString 72 (2818268204315443 / 4398046511104) [Lit ''Uploaded by: '', Lit (uploaded_by d)],
      SetFont ''Helvetica-Bold'' 14,
      DrawString 72 (2659938529915699 / 4398046511104) [Lit ''Summary Statistics''],
      SetFont ''Helvetica'' 11,
      DrawString 72 (5129881450551705 / 8796093022208)
        [Lit ''Total Equipment Count: '', IntF (total_count d)],
      DrawString 72 (4971551776151961 / 8796093022208)
        [Lit ''Average Flowrate: '', FloatF 2 (avg_flowrate d)],
      DrawString 72 (4813222101752217 / 8796093022208)
        [Lit ''Average Pressure: '', FloatF 2 (avg_pressure d)],
      DrawString 72 (4654892427352473 / 8796093022208)
        [Lit ''Average Temperature: '', FloatF 2 (avg_temperature d)],
      SetFont ''Helvetica-Bold'' 14,
      DrawString 72 (4338233078552985 / 8796093022208)
        [Lit ''Equipment Type Distribution''],
      SetFont ''Helvetica'' 11,
      SetFont ''Helvetica-Bold'' 14,
      DrawString 72 (3958241859993599 / 8796093022208) [Lit ''Equipment Details''],
      SetFont ''Helvetica-Bold'' 9,
      DrawString 72 (1884123125356953 / 4398046511104) [Lit ''Name''],
      DrawString 216 (1884123125356953 / 4398046511104) [Lit ''Type''],
      DrawString 324 (1884123125356953 / 4398046511104) [Lit ''Flowrate''],
      DrawString 396 (1884123125356953 / 4398046511104) [Lit ''Pressure''],
      DrawString 468 (1884123125356953 / 4398046511104) [Lit ''Temp''],
      Line 72 (3736580315833957 / 8796093022208) 540 (3736580315833957 / 8796093022208),
      SetFont ''Helvetica'' 8,
      SetFont ''Helvetica-Oblique'' 8,
      DrawString 72 36 [Lit ''Generated by Chemical Equipment Visualizer''],
      ShowPage,
      Save]"

section \<open>Sample data\<close>

definition empty_store :: "bool \<Rightarrow> store" where
  "empty_store ok =
     \<lparr>datasets = [], equipments = [], storage = {}, next_dataset_pk = 0,
      next_equipment_pk = 0, next_file = 0, nan_ok = ok, locked = {}, log = []\<rparr>"

definition pump_row :: "string \<Rightarrow> cell" where
  "pump_row c =
     (if c = ''Equipment Name'' then Text ''Pump-1''
      else if c = ''Type'' then Text ''Pump''
      else if c = ''Flowrate'' then Number 10 ''10.0''
      else if c = ''Pressure'' then Number 5 ''5.0''
      else if c = ''Temperature'' then Number 100 ''100.0''
      else Missing)"

definition valve_row :: "string \<Rightarrow> cell" where
  "valve_row c =
     (if c = ''Equipment Name'' then Text ''Valve-1''
      else if c = ''Type'' then Text ''Valve''
      else if c = ''Flowrate'' then Number 20 ''20.0''
      else if c = ''Pressure'' then Number 6 ''6.0''
      else if c = ''Temperature'' then Number 110 ''110.0''
      else Missing)"

definition sample_csv :: uploaded_file where
  "sample_csv =
     \<lparr>file_name = ''data.csv'',
      read_csv = Inr \<lparr>columns = required_cols, rows = [pump_row, valve_row],
                       series_sum = row_order_sum\<rparr>\<rparr>"

text \<open>A header with every required column and no data row.\<close>

definition header_only :: uploaded_file where
  "header_only =
     \<lparr>file_name = ''data.csv'', read_csv = Inr \<lparr>columns = required_cols, rows = [], series_sum = row_order_sum\<rparr>\<rparr>"

text \<open>The sample without the column \<^verbatim>\<open>Pressure\<close>.\<close>

definition no_pressure_csv :: uploaded_file where
  "no_pressure_csv =
     \<lparr>file_name = ''data.csv'',
      read_csv = Inr \<lparr>columns = [''Equipment Name'', ''Type'', ''Flowrate'', ''Temperature''],
                       rows = [pump_row, valve_row],
                       series_sum = row_order_sum\<rparr>\<rparr>"

text \<open>The sample with a word in \<^verbatim>\<open>Flowrate\<close> of row 0, and in \<^verbatim>\<open>Temperature\<close> of row 1.\<close>

definition bad_flowrate_csv :: uploaded_file where
  "bad_flowrate_csv =
     \<lparr>file_name = ''data.csv'',
      read_csv = Inr \<lparr>columns = required_cols,
                       rows = [pump_row(''Flowrate'' := Text ''fast''), valve_row],
                       series_sum = row_order_sum\<rparr>\<rparr>"

definition bad_temperature_csv :: uploaded_file where
  "bad_temperature_csv =
     \<lparr>file_name = ''data.csv'',
      read_csv = Inr \<lparr>columns = required_cols,
                       rows = [pump_row, valve_row(''Temperature'' := Text ''hot'')],
                       series_sum = row_order_sum\<rparr>\<rparr>"

text \<open>The sample with an empty cell in \<^verbatim>\<open>Flowrate\<close> of row 0.\<close>

definition missing_flowrate_csv :: uploaded_file where
  "missing_flowrate_csv =
     \<lparr>file_name = ''data.csv'',
      read_csv = Inr \<lparr>columns = required_cols,
                       rows = [pump_row(''Flowrate'' := Missing), valve_row],
                       series_sum = row_order_sum\<rparr>\<rparr>"

text \<open>
  Three rows whose flowrates are \<open>10\<^sup>1\<^sup>6\<close>, 1 and \<open>-10\<^sup>1\<^sup>6\<close> (their arithmetic mean is a
  third), and two rows whose flowrates are both \<open>2\<^sup>1\<^sup>0\<^sup>2\<^sup>3\<close>, a double near \<open>9\<cdot>10\<^sup>3\<^sup>0\<^sup>7\<close>.
\<close>

definition cancelling_frame :: dataframe where
  "cancelling_frame =
     \<lparr>columns = required_cols,
      rows = [pump_row(''Flowrate'' := Number 10000000000000000 ''1e+16''),
              valve_row(''Flowrate'' := Number 1 ''1.0''),
              pump_row(''Flowrate'' := Number (- 10000000000000000) ''-1e+16'')],
      series_sum = row_order_sum\<rparr>"

definition cancelling_csv :: uploaded_file where
  "cancelling_csv = \<lparr>file_name = ''data.csv'', read_csv = Inr cancelling_frame\<rparr>"

definition huge_frame :: dataframe where
  "huge_frame =
     \<lparr>columns = required_cols,
      rows = [pump_row(''Flowrate'' := Number (2 ^ 1023) ''8.98846567431158e+307''),
              valve_row(''Flowrate'' := Number (2 ^ 1023) ''8.98846567431158e+307'')],
      series_sum = row_order_sum\<rparr>"

definition huge_csv :: uploaded_file where
  "huge_csv = \<lparr>file_name = ''data.csv'', read_csv = Inr huge_frame\<rparr>"

text \<open>Uploads of the sample, one after the other, at the given clock readings.\<close>

fun upload_times :: "store \<Rightarrow> int list \<Rightarrow> store" where
  "upload_times s [] = s"
| "upload_times s (t # ts) = upload_times (snd (upload s t ''user'' (Some sample_csv))) ts"

text \<open>The dataset and the equipment rows that the upload number \<open>i\<close> of the sample leaves.\<close>

definition sample_dataset :: "nat \<Rightarrow> equipment_dataset" where
  "sample_dataset i =
     \<lparr>pk = i, name = ''data.csv'', uploaded_by = ''user'', uploaded_at = int i + 1,
      file_field = Some i, total_count = 2, avg_flowrate = Fin 15, avg_pressure = Fin (11 / 2),
      avg_temperature = Fin 105\<rparr>"

definition sample_equipments :: "nat \<Rightarrow> (nat \<times> equipment) list" where
  "sample_equipments i =
     [(2 * i, \<lparr>dataset = i, eq_name = ''Pump-1'', eq_type = ''Pump'', flowrate = Fin 10,
               pressure = Fin 5, temperature = Fin 100\<rparr>),
      (2 * i + 1, \<lparr>dataset = i, eq_name = ''Valve-1'', eq_type = ''Valve'', flowrate = Fin 20,
                   pressure = Fin 6, temperature = Fin 110\<rparr>)]"

text \<open>The store after five uploads of the sample into the empty store.\<close>

definition store5 :: store where
  "store5 =
     \<lparr>datasets = map sample_dataset [0, 1, 2, 3, 4],
      equipments = concat (map sample_equipments [0, 1, 2, 3, 4]),
      storage = {0, 1, 2, 3, 4}, next_dataset_pk = 5, next_equipment_pk = 10, next_file = 5,
      nan_ok = True, locked = {}, log = []\<rparr>"

text \<open>The store after five uploads, with the file of the oldest dataset locked.\<close>

definition store5_locked :: store where
  "store5_locked = store5\<lparr>locked := {0}\<rparr>"

text \<open>Equipment rows of the types Pump, Valve, Pump.\<close>

definition pump_valve_pump :: "(nat \<times> equipment) list" where
  "pump_valve_pump =
     [(0, \<lparr>dataset = 0, eq_name = ''P-1'', eq_type = ''Pump'', flowrate = Fin 10,
           pressure = Fin 5, temperature = Fin 100\<rparr>),
      (1, \<lparr>dataset = 0, eq_name = ''V-1'', eq_type = ''Valve'', flowrate = Fin 20,
           pressure = Fin 6, temperature = Fin 110\<rparr>),
      (2, \<lparr>dataset = 0, eq_name = ''P-2'', eq_type = ''Pump'', flowrate = Fin 30,
           pressure = Fin 7, temperature = Fin 120\<rparr>)]"

text \<open>A store whose dataset has means with more than two decimals.\<close>

definition rounding_store :: store where
  "rounding_store =
     \<lparr>datasets = [\<lparr>pk = 0, name = ''data.csv'', uploaded_by = ''user'', uploaded_at = 1,
                   file_field = Some 0, total_count = 3, avg_flowrate = Fin 10.456,
                   avg_pressure = Fin 5.5, avg_temperature = Fin 99.994\<rparr>],
      equipments = pump_valve_pump, storage = {0}, next_dataset_pk = 1,
      next_equipment_pk = 3, next_file = 1, nan_ok = True, locked = {}, log = []\<rparr>"

text \<open>A store whose only dataset has no equipment row.\<close>

definition no_rows_store :: store where
  "no_rows_store =
     \<lparr>datasets = [\<lparr>pk = 0, name = ''data.csv'', uploaded_by = ''user'', uploaded_at = 1,
                   file_field = Some 0, total_count = 0, avg_flowrate = NaN,
                   avg_pressure = NaN, avg_temperature = NaN\<rparr>],
      equipments = [], storage = {0}, next_dataset_pk = 1, next_equipment_pk = 0,
      next_file = 1, nan_ok = True, locked = {}, log = []\<rparr>"

section \<open>The pruning loop\<close>

lemma length_objects_all: "length (objects_all s) = length (datasets s)"
  by (simp add: objects_all_def)

lemma filter_replace:
  "pk d' = k \<Longrightarrow>
     filter (\<lambda>r. pk r \<noteq> k) (map (\<lambda>r. if pk r = k then d' else r) xs)
       = filter (\<lambda>r. pk r \<noteq> k) xs"
  by (induction xs) auto

lemma file_delete_Inr:
  assumes "file_delete d s = (Inr u, s1)"
  shows "filter (\<lambda>r. pk r \<noteq> pk d) (datasets s1) = filter (\<lambda>r. pk r \<noteq> pk d) (datasets s)"
    and "equipments s1 = equipments s"
    and "storage s1 = storage s - file_keys [d]"
    and "log s1 @ [RowDeleted (pk d)] = log s @ effects_of d"
    and "locked s1 = locked s"
  using assms
  by (auto simp: file_delete_def effects_of_def file_keys_def filter_replace
           split: option.splits if_splits)

lemma file_delete_Inl:
  "file_delete d s = (Inl e, s1) \<Longrightarrow> e = PermissionError \<and> s1 = s"
  by (auto simp: file_delete_def split: option.splits if_splits)

lemma file_keys_Cons: "file_keys (d # ds) = file_keys [d] \<union> file_keys ds"
  by (auto simp: file_keys_def)

lemma delete_old_Inr:
  "delete_old L s = (Inr u, s') \<Longrightarrow>
     datasets s' = filter (\<lambda>r. pk r \<notin> pk ` set L) (datasets s) \<and>
     equipments s' = filter (\<lambda>(k, e). dataset e \<notin> pk ` set L) (equipments s) \<and>
     storage s' = storage s - file_keys L \<and>
     log s' = log s @ concat (map effects_of L)"
proof (induction L arbitrary: s)
  case Nil
  then show ?case by (simp add: file_keys_def)
next
  case (Cons d L)
  from Cons.prems obtain s1 where fd: "file_delete d s = (Inr (), s1)"
    and rest: "delete_old L (model_delete d s1) = (Inr u, s')"
    by (auto split: prod.splits sum.splits)
  note ih = Cons.IH [OF rest]
  note f = file_delete_Inr [OF fd]
  have ds: "datasets (model_delete d s1) = filter (\<lambda>r. pk r \<noteq> pk d) (datasets s)"
    using f(1) by (simp add: model_delete_def)
  have es: "equipments (model_delete d s1) = filter (\<lambda>(k, e). dataset e \<noteq> pk d) (equipments s)"
    using f(2) by (simp add: model_delete_def)
  have st: "storage (model_delete d s1) = storage s - file_keys [d]"
    using f(3) by (simp add: model_delete_def)
  have lg: "log (model_delete d s1) = log s @ effects_of d"
    using f(4) by (simp add: model_delete_def)
  have 1: "datasets s' = filter (\<lambda>r. pk r \<notin> pk ` set (d # L)) (datasets s)"
    using ih ds by (auto intro: filter_cong)
  have 2: "equipments s' = filter (\<lambda>(k, e). dataset e \<notin> pk ` set (d # L)) (equipments s)"
    using ih es by (auto intro: filter_cong)
  have 3: "storage s' = storage s - file_keys (d # L)"
    using ih st by (subst file_keys_Cons) auto
  have 4: "log s' = log s @ concat (map effects_of (d # L))"
    using ih lg by simp
  from 1 2 3 4 show ?case by blast
qed

lemma delete_old_kept:
  "delete_old L s = (r, s') \<Longrightarrow>
     filter (\<lambda>r. pk r \<notin> pk ` set L) (datasets s') = filter (\<lambda>r. pk r \<notin> pk ` set L) (datasets s) \<and>
     filter (\<lambda>(k, e). dataset e \<notin> pk ` set L) (equipments s')
       = filter (\<lambda>(k, e). dataset e \<notin> pk ` set L) (equipments s)"
proof (induction L arbitrary: s)
  case Nil
  then show ?case by simp
next
  case (Cons d L)
  show ?case
  proof (cases "file_delete d s")
    case (Pair a s1)
    show ?thesis
    proof (cases a)
      case (Inl e)
      with Pair Cons.prems file_delete_Inl [of d s e s1] show ?thesis by simp
    next
      case (Inr u)
      with Pair Cons.prems have rest: "delete_old L (model_delete d s1) = (r, s')" by simp
      note ih = Cons.IH [OF rest]
      note f = file_delete_Inr [OF Pair [unfolded Inr]]
      have ds: "datasets (model_delete d s1) = filter (\<lambda>r. pk r \<noteq> pk d) (datasets s)"
        using f(1) by (simp add: model_delete_def)
      have es: "equipments (model_delete d s1) = filter (\<lambda>(k, e). dataset e \<noteq> pk d) (equipments s)"
        using f(2) by (simp add: model_delete_def)
      have "filter (\<lambda>r. pk r \<notin> pk ` set (d # L)) (datasets s')
            = filter (\<lambda>r. pk r \<noteq> pk d) (filter (\<lambda>r. pk r \<notin> pk ` set L) (datasets s'))"
        by (auto intro: filter_cong)
      also have "\<dots> = filter (\<lambda>r. pk r \<noteq> pk d) (filter (\<lambda>r. pk r \<notin> pk ` set L) (filter (\<lambda>r. pk r \<noteq> pk d) (datasets s)))"
        using ih ds by simp
      also have "\<dots> = filter (\<lambda>r. pk r \<notin> pk ` set (d # L)) (datasets s)"
        by (auto intro: filter_cong)
      finally have 1: "filter (\<lambda>r. pk r \<notin> pk ` set (d # L)) (datasets s')
            = filter (\<lambda>r. pk r \<notin> pk ` set (d # L)) (datasets s)" .
      have "filter (\<lambda>(k, e). dataset e \<notin> pk ` set (d # L)) (equipments s')
            = filter (\<lambda>(k, e). dataset e \<noteq> pk d) (filter (\<lambda>(k, e). dataset e \<notin> pk ` set L) (equipments s'))"
        by (auto intro: filter_cong)
      also have "\<dots> = filter (\<lambda>(k, e). dataset e \<noteq> pk d) (filter (\<lambda>(k, e). dataset e \<notin> pk ` set L) (filter (\<lambda>(k, e). dataset e \<noteq> pk d) (equipments s)))"
        using ih es by simp
      also have "\<dots> = filter (\<lambda>(k, e). dataset e \<notin> pk ` set (d # L)) (equipments s)"
        by (auto intro: filter_cong)
      finally show ?thesis using 1 by simp
    qed
  qed
qed

lemma delete_old_Inl: "delete_old L s = (Inl e, s') \<Longrightarrow> e = PermissionError"
proof (induction L arbitrary: s)
  case Nil
  then show ?case by simp
next
  case (Cons d L)
  then show ?case
    by (auto split: prod.splits sum.splits dest: file_delete_Inl)
qed

lemma filter_notin_drop:
  "distinct (map g L) \<Longrightarrow> filter (\<lambda>r. g r \<notin> g ` set (drop n L)) L = take n L"
proof -
  assume d: "distinct (map g L)"
  have L: "L = take n L @ drop n L" by simp
  from d have "distinct (map g (take n L) @ map g (drop n L))"
    by (metis append_take_drop_id map_append)
  then have disj: "g ` set (take n L) \<inter> g ` set (drop n L) = {}" by auto
  have a: "filter (\<lambda>r. g r \<notin> g ` set (drop n L)) (take n L) = take n L"
    using disj by (auto simp: filter_id_conv)
  have b: "filter (\<lambda>r. g r \<notin> g ` set (drop n L)) (drop n L) = []"
    by (auto simp: filter_empty_conv)
  have "filter (\<lambda>r. g r \<notin> g ` set (drop n L)) (take n L @ drop n L) = take n L"
    unfolding filter_append a b by simp
  then show ?thesis by simp
qed

lemma keep_last_5_Inr:
  assumes "keep_last_5 s = (Inr u, s')" and "distinct (map pk (datasets s))"
  shows "objects_all s' = take 5 (objects_all s)"
    and "storage s' = storage s - file_keys (drop 5 (objects_all s))"
    and "log s' = log s @ concat (map effects_of (drop 5 (objects_all s)))"
    and "equipments s' = filter (\<lambda>(k, e). dataset e \<notin> pk ` set (drop 5 (objects_all s))) (equipments s)"
proof -
  note d = delete_old_Inr [OF assms(1) [unfolded keep_last_5_def]]
  have dist: "distinct (map pk (objects_all s))"
    using assms(2) by (simp add: objects_all_def distinct_map inj_on_def)
  have "objects_all s' = filter (\<lambda>r. pk r \<notin> pk ` set (drop 5 (objects_all s))) (objects_all s)"
    using d by (simp add: objects_all_def filter_sort)
  also have "\<dots> = take 5 (objects_all s)" by (rule filter_notin_drop [OF dist])
  finally show "objects_all s' = take 5 (objects_all s)" .
  from d show "storage s' = storage s - file_keys (drop 5 (objects_all s))" by simp
  from d show "log s' = log s @ concat (map effects_of (drop 5 (objects_all s)))" by simp
  from d show "equipments s' = filter (\<lambda>(k, e). dataset e \<notin> pk ` set (drop 5 (objects_all s))) (equipments s)" by simp
qed


section \<open>Float values\<close>

text \<open>
  The float operations are evaluated on the numbers that occur: here the coordinates of
  the report, and powers of two up to the overflow of a sum.
\<close>

lemmas float_defs = rnd_def exponent_def pow2_def round_half_even_def bit_length.simps
  as_float_def Let_def row_order_sum_def inches_def fsub_def inch_def

lemma inches_values:
  "inches 1 = 72"
  "inches 1.5 = 108"
  "inches 0.3 = 6079859496950169 / 281474976710656"
  "inches 0.5 = 36"
  "inches 0.25 = 18"
  "inches 0.05 = 8106479329266893 / 2251799813685248"
  "inches 0.2 = 8106479329266893 / 562949953421312"
  "inches 2 = 144"
  "inches 3 = 216"
  "inches 4.5 = 324"
  "inches 5.5 = 396"
  "inches 6.5 = 468"
  "inches 7.5 = 540"
  "inches 1.2 = 6079859496950169 / 70368744177664"
  by (simp_all add: float_defs)

lemma inches_values_normal:
  "inches (3 / 2) = 108"
  "inches (3 / 10) = 6079859496950169 / 281474976710656"
  "inches (1 / 2) = 36"
  "inches (1 / 4) = 18"
  "inches (1 / 20) = 8106479329266893 / 2251799813685248"
  "inches (1 / 5) = 8106479329266893 / 562949953421312"
  "inches (9 / 2) = 324"
  "inches (11 / 2) = 396"
  "inches (13 / 2) = 468"
  "inches (15 / 2) = 540"
  "inches (6 / 5) = 6079859496950169 / 70368744177664"
  by (simp_all add: float_defs)

lemma fsub_values:
  "fsub 792 72 = 720"
  "fsub 792 108 = 684"
  "fsub 684 (6079859496950169 / 281474976710656) = 5826532017910579 / 8796093022208"
  "fsub (5826532017910579 / 8796093022208) (6079859496950169 / 281474976710656) = 2818268204315443 / 4398046511104"
  "fsub (2818268204315443 / 4398046511104) 36 = 2659938529915699 / 4398046511104"
  "fsub (2659938529915699 / 4398046511104) (6079859496950169 / 281474976710656) = 5129881450551705 / 8796093022208"
  "fsub (5129881450551705 / 8796093022208) 18 = 4971551776151961 / 8796093022208"
  "fsub (4971551776151961 / 8796093022208) 18 = 4813222101752217 / 8796093022208"
  "fsub (4813222101752217 / 8796093022208) 18 = 4654892427352473 / 8796093022208"
  "fsub (4654892427352473 / 8796093022208) 36 = 4338233078552985 / 8796093022208"
  "fsub (4338233078552985 / 8796093022208) (6079859496950169 / 281474976710656) = 1037059367318323 / 2199023255552"
  "fsub (1037059367318323 / 2199023255552) (6079859496950169 / 281474976710656) = 3958241859993599 / 8796093022208"
  "fsub (3958241859993599 / 8796093022208) (6079859496950169 / 281474976710656) = 1884123125356953 / 4398046511104"
  "fsub (1884123125356953 / 4398046511104) (8106479329266893 / 2251799813685248) = 3736580315833957 / 8796093022208"
  "fsub (3736580315833957 / 8796093022208) (8106479329266893 / 562949953421312) = 1804958288157081 / 4398046511104"
  by (simp_all add: float_defs)

lemma bit_length_pow2: "bit_length (2 ^ n) = Suc n"
proof (induction n)
  case 0
  show ?case by (simp add: bit_length.simps)
next
  case (Suc n)
  have "bit_length (2 ^ Suc n) = Suc (bit_length ((2 ^ Suc n) div 2))"
    by (subst bit_length.simps) simp
  with Suc show ?case by simp
qed

lemma exponent_pow2: "exponent (2 ^ n) = int n"
proof -
  have "\<lfloor>\<bar>(2::real) ^ n\<bar>\<rfloor> = 2 ^ n"
    by (metis abs_of_nonneg floor_of_int of_int_numeral of_int_power zero_le_numeral zero_le_power)
  then show ?thesis by (simp add: exponent_def bit_length_pow2)
qed

lemma round_half_even_of_int: "round_half_even (of_int k) = k"
  by (simp add: round_half_even_def)

lemma rnd_pow2:
  assumes "52 \<le> n"
  shows "rnd (2 ^ n) = 2 ^ n"
proof -
  have e: "max (exponent ((2::real) ^ n)) (- 1022) - 52 = int (n - 52)"
    using assms by (simp add: exponent_pow2)
  have q: "pow2 (int (n - 52)) = 2 ^ (n - 52)" by (simp add: pow2_def)
  have d: "(2::real) ^ n / 2 ^ (n - 52) = of_int (2 ^ 52)"
    using assms by (simp add: power_diff)
  have "(2::real) ^ n = 2 ^ (52 + (n - 52))"
    using assms by simp
  also have "\<dots> = 2 ^ 52 * 2 ^ (n - 52)"
    by (simp only: power_add)
  finally have m: "of_int (2 ^ 52) * (2::real) ^ (n - 52) = 2 ^ n" by simp
  show ?thesis
    unfolding rnd_def e q Let_def d round_half_even_of_int m by simp
qed

lemma as_float_pow2:
  assumes "52 \<le> n"
  shows "as_float (2 ^ n) = (if 1024 \<le> n then PInf else Fin (2 ^ n))"
  using assms by (simp add: as_float_def rnd_pow2 exponent_pow2)

lemma row_order_sum_huge: "row_order_sum [2 ^ 1023, 2 ^ 1023] = PInf"
proof -
  have a: "as_float ((2::real) ^ 1023) = Fin (2 ^ 1023)"
    using as_float_pow2 [of 1023] by simp
  have "(2::real) ^ 1023 + 2 ^ 1023 = 2 ^ 1024"
    by (simp flip: mult_2 power_Suc)
  then have b: "as_float ((2::real) ^ 1023 + 2 ^ 1023) = PInf"
    using as_float_pow2 [of 1024] by simp
  show ?thesis
    unfolding row_order_sum_def by (simp only: list.map foldl.simps fadd.simps add_0 a b)
qed

text \<open>The statistics of the sample frame.\<close>

lemma statistics_sample:
  "statistics \<lparr>columns = cs, rows = [pump_row, valve_row], series_sum = row_order_sum\<rparr>
     = Inr (2, Fin 15, Fin (11 / 2), Fin 105)"
  by (simp add: statistics_def column_def mean_def pump_row_def valve_row_def float_defs)

lemma statistics_empty: "rows df = [] \<Longrightarrow> statistics df = Inr (0, NaN, NaN, NaN)"
  by (simp add: statistics_def column_def mean_def)

section \<open>The steps of an upload\<close>

lemma create_Inr:
  assumes "create s nm usr now cnt af ap ate = (Inr d, s1)"
  shows "datasets s1 = datasets s @ [d]" and "pk d = next_dataset_pk s" and "uploaded_at d = now"
    and "storage s1 = insert (next_file s) (storage s)" and "log s1 = log s"
    and "equipments s1 = equipments s" and "next_dataset_pk s1 = Suc (next_dataset_pk s)"
    and "total_count d = cnt" and "avg_flowrate d = af" and "avg_pressure d = ap"
    and "avg_temperature d = ate" and "locked s1 = locked s" and "nan_ok s1 = nan_ok s"
    and "file_field d = Some (next_file s)" and "next_equipment_pk s1 = next_equipment_pk s"
  using assms by (auto simp: create_def Let_def split: if_splits)

lemma bulk_create_Inr:
  assumes "bulk_create s objs = (Inr u, s2)"
  shows "datasets s2 = datasets s" and "storage s2 = storage s" and "log s2 = log s"
    and "next_dataset_pk s2 = next_dataset_pk s" and "locked s2 = locked s"
    and "equipments s2 =
           equipments s @ zip [next_equipment_pk s ..< next_equipment_pk s + length objs] objs"
  using assms by (auto simp: bulk_create_def split: if_splits)

lemma store_and_prune_Inr:
  assumes "store_and_prune s now usr nm df (cnt, af, ap, ate) = (Inr r, s')"
  shows "\<exists>d s1 objs s2. create s nm usr now cnt af ap ate = (Inr d, s1) \<and>
           equipment_objects d (rows df) = Inr objs \<and> bulk_create s1 objs = (Inr (), s2) \<and>
           keep_last_5 s2 = (Inr (), s') \<and> r = Created (DatasetDetailSerializer s' d)"
  using assms
  by (auto simp: store_and_prune_def split: prod.splits sum.splits)

lemma upload_Created:
  assumes "upload s now usr upl = (Created p, s')"
  shows "\<exists>f df cnt af ap ate d s1 objs s2.
           upl = Some f \<and> read_csv f = Inr df \<and> statistics df = Inr (cnt, af, ap, ate) \<and>
           create s (file_name f) usr now cnt af ap ate = (Inr d, s1) \<and>
           equipment_objects d (rows df) = Inr objs \<and> bulk_create s1 objs = (Inr (), s2) \<and>
           keep_last_5 s2 = (Inr (), s') \<and> p = DatasetDetailSerializer s' d"
proof -
  from assms obtain f where f: "upl = Some f"
    by (cases upl) (auto simp: upload_def)
  from assms f have t: "upload_try s now usr f = (Inr (Created p), s')"
    by (auto simp: upload_def split: if_splits prod.splits sum.splits)
  then obtain df where df: "read_csv f = Inr df"
    by (cases "read_csv f") (auto simp: upload_try_def)
  from t df obtain st where st: "statistics df = Inr st"
    and sp: "store_and_prune s now usr (file_name f) df st = (Inr (Created p), s')"
    by (cases "statistics df") (auto simp: upload_try_def Let_def split: if_splits)
  obtain cnt af ap ate where st': "st = (cnt, af, ap, ate)" by (cases st) auto
  from store_and_prune_Inr [OF sp [unfolded st']] f df st st' show ?thesis by blast
qed

lemma wf_store_append:
  assumes "wf_store s" and "datasets s1 = datasets s @ [d]" and "pk d = next_dataset_pk s"
  shows "distinct (map pk (datasets s1))"
  using assms by (auto simp: wf_store_def list_all_iff)

text \<open>The sample uploads, evaluated.\<close>

lemmas upload_defs = upload_def upload_try_def store_and_prune_def create_def
  bulk_create_def keep_last_5_def objects_all_def DatasetDetailSerializer_def equipments_of_def
  EquipmentSerializer_def endswith_def required_cols_def has_nan_def
  file_delete_def model_delete_def Let_def statistics_sample

lemmas sample_defs = sample_csv_def pump_row_def valve_row_def empty_store_def
  sample_dataset_def sample_equipments_def store5_def

lemma upload_first: "upload (empty_store True) 1 ''user'' (Some sample_csv) =
  (Created \<lparr>d_id = 0, d_name = ''data.csv'', d_uploaded_at = 1, d_total_count = 2,
     d_avg_flowrate = Fin 15, d_avg_pressure = Fin (11/2), d_avg_temperature = Fin 105,
     d_equipments = map EquipmentSerializer (sample_equipments 0)\<rparr>,
   \<lparr>datasets = [sample_dataset 0], equipments = sample_equipments 0, storage = {0},
    next_dataset_pk = 1, next_equipment_pk = 2, next_file = 1, nan_ok = True, locked = {}, log = []\<rparr>)"
  by (simp add: upload_defs sample_defs)


lemma upload_sixth: "upload store5 6 ''user'' (Some sample_csv) =
  (Created \<lparr>d_id = 5, d_name = ''data.csv'', d_uploaded_at = 6, d_total_count = 2,
     d_avg_flowrate = Fin 15, d_avg_pressure = Fin (11/2), d_avg_temperature = Fin 105,
     d_equipments = map EquipmentSerializer (sample_equipments 5)\<rparr>,
   \<lparr>datasets = map sample_dataset [1, 2, 3, 4, 5],
    equipments = concat (map sample_equipments [1, 2, 3, 4, 5]),
    storage = {1, 2, 3, 4, 5},
    next_dataset_pk = 6, next_equipment_pk = 12, next_file = 6, nan_ok = True, locked = {},
    log = [FileDeleted 0, RowDeleted 0]\<rparr>)"
  by (simp add: upload_defs sample_defs) auto


lemma upload_first_five: "upload_times (empty_store True) [1, 2, 3, 4, 5] = store5"
  by (simp add: upload_defs sample_defs) auto

lemma wf_store5: "wf_store store5"
  by (simp add: wf_store_def store5_def sample_dataset_def sample_equipments_def)

section \<open>Retention\<close>

text \<open>
  C8. With at most five datasets in the store, the pruning step of lines 103-107 deletes
  nothing and raises nothing: the store it returns is the store it was given, with the
  same dataset rows, equipment rows, files and log. Run again, it does the same.
\<close>

theorem keep_last_5_noop:
  "length (datasets s) \<le> 5 \<Longrightarrow> keep_last_5 s = (Inr (), s)"
  by (simp add: keep_last_5_def length_objects_all)

theorem keep_last_5_noop_witness:
  "length (datasets store5) \<le> 5 \<and> length (datasets store5) = 5 \<and>
   keep_last_5 store5 = (Inr (), store5)"
proof -
  have h: "length (datasets store5) \<le> 5" by (simp add: store5_def)
  show ?thesis using h keep_last_5_noop [OF h] by (simp add: store5_def)
qed

text \<open>
  C3. After an upload that answers 201, whatever the store held before: at most five
  datasets exist; listed by upload timestamp, newest first, they are the first five of the
  old rows and the new one in that order (all of them when there are fewer), and
  \<^verbatim>\<open>history\<close> returns exactly these; no file of a pruned dataset is left in the storage;
  and the pruning deleted, for each pruned dataset in turn, its file and then its row.
  Six uploads in a row into the empty store leave the five newest, and the file of the
  first is gone. (Rows with equal timestamps are ranked in insertion order.)
\<close>

theorem upload_keeps_newest_5:
  assumes "wf_store s" and "upload s now usr upl = (Created p, s')"
  shows "\<exists>d. pk d = next_dataset_pk s \<and> uploaded_at d = now \<and>
           length (datasets s') \<le> 5 \<and>
           objects_all s' = take 5 (sort_key (\<lambda>d. - uploaded_at d) (datasets s @ [d])) \<and>
           fst (history s') =
             map (DatasetSummarySerializer s')
               (take 5 (sort_key (\<lambda>d. - uploaded_at d) (datasets s @ [d]))) \<and>
           storage s' \<inter> file_keys (drop 5 (sort_key (\<lambda>d. - uploaded_at d) (datasets s @ [d]))) = {} \<and>
           log s' =
             log s @
             concat (map effects_of (drop 5 (sort_key (\<lambda>d. - uploaded_at d) (datasets s @ [d]))))"
proof -
  from upload_Created [OF assms(2)] obtain f df cnt af ap ate d s1 objs s2 where
    "upl = Some f \<and> read_csv f = Inr df \<and> statistics df = Inr (cnt, af, ap, ate) \<and>
     create s (file_name f) usr now cnt af ap ate = (Inr d, s1) \<and>
     equipment_objects d (rows df) = Inr objs \<and> bulk_create s1 objs = (Inr (), s2) \<and>
     keep_last_5 s2 = (Inr (), s') \<and> p = DatasetDetailSerializer s' d"
    by (elim exE)
  then have
    c: "create s (file_name f) usr now cnt af ap ate = (Inr d, s1)" and
    b: "bulk_create s1 objs = (Inr (), s2)" and
    k: "keep_last_5 s2 = (Inr (), s')" by simp_all
  note c' = create_Inr [OF c]
  note b' = bulk_create_Inr [OF b]
  have ds2: "datasets s2 = datasets s @ [d]" using c'(1) b'(1) by simp
  have dist: "distinct (map pk (datasets s2))"
    by (rule wf_store_append [OF assms(1) ds2 c'(2)])
  note k' = keep_last_5_Inr [OF k dist]
  have oa: "objects_all s2 = sort_key (\<lambda>d. - uploaded_at d) (datasets s @ [d])"
    by (simp add: objects_all_def ds2)
  have 1: "objects_all s' = take 5 (sort_key (\<lambda>d. - uploaded_at d) (datasets s @ [d]))"
    using k'(1) oa by simp
  have "length (datasets s') = length (objects_all s')" by (simp add: length_objects_all)
  with 1 have 2: "length (datasets s') \<le> 5" by simp
  have 3: "fst (history s') =
             map (DatasetSummarySerializer s')
               (take 5 (sort_key (\<lambda>d. - uploaded_at d) (datasets s @ [d])))"
    using 1 by (simp add: history_def)
  have 4: "storage s' \<inter> file_keys (drop 5 (sort_key (\<lambda>d. - uploaded_at d) (datasets s @ [d]))) = {}"
    using k'(2) oa by auto
  have 5: "log s' = log s @ concat (map effects_of (drop 5 (sort_key (\<lambda>d. - uploaded_at d) (datasets s @ [d]))))"
    using k'(3) oa c'(5) b'(3) by simp
  from c'(2,3) 1 2 3 4 5 show ?thesis by blast
qed

theorem upload_keeps_newest_5_witness:
  "wf_store store5 \<and>
   upload_times (empty_store True) [1, 2, 3, 4, 5] = store5 \<and>
   (\<exists>p. fst (upload store5 6 ''user'' (Some sample_csv)) = Created p) \<and>
   map s_id (fst (history (upload_times (empty_store True) [1, 2, 3, 4, 5, 6]))) = [5, 4, 3, 2, 1] \<and>
   length (datasets (upload_times (empty_store True) [1, 2, 3, 4, 5, 6])) = 5 \<and>
   0 \<notin> storage (upload_times (empty_store True) [1, 2, 3, 4, 5, 6]) \<and>
   log (upload_times (empty_store True) [1, 2, 3, 4, 5, 6]) = [FileDeleted 0, RowDeleted 0]"
proof -
  let ?s6 = "snd (upload store5 6 ''user'' (Some sample_csv))"
  have t: "upload_times (empty_store True) [1, 2, 3, 4, 5, 6] = ?s6"
    using upload_first_five by simp
  obtain p where u: "upload store5 6 ''user'' (Some sample_csv) = (Created p, ?s6)"
    using upload_sixth by simp
  from upload_keeps_newest_5 [OF wf_store5 u] obtain d where
    d: "pk d = next_dataset_pk store5" "uploaded_at d = 6"
       "fst (history ?s6) = map (DatasetSummarySerializer ?s6)
          (take 5 (sort_key (\<lambda>d. - uploaded_at d) (datasets store5 @ [d])))"
       "storage ?s6 \<inter> file_keys (drop 5 (sort_key (\<lambda>d. - uploaded_at d) (datasets store5 @ [d]))) = {}"
    by blast
  have r: "sort_key (\<lambda>d. - uploaded_at d) (datasets store5 @ [d])
             = d # map sample_dataset [4, 3, 2, 1, 0]"
    using d(2) by (simp add: store5_def sample_dataset_def sort_key_def)
  have h: "map s_id (fst (history ?s6)) = [5, 4, 3, 2, 1]"
    using d(1,3) r by (simp add: DatasetSummarySerializer_def sample_dataset_def store5_def)
  have "0 \<in> file_keys (drop 5 (sort_key (\<lambda>d. - uploaded_at d) (datasets store5 @ [d])))"
    unfolding r by (simp add: file_keys_def sample_dataset_def)
  with d(4) have f: "0 \<notin> storage ?s6" by blast
  show ?thesis using wf_store5 upload_first_five u h f t upload_sixth by simp
qed

section \<open>Validation of the header\<close>

text \<open>
  C6. When the frame read from a file named \<^verbatim>\<open>*.csv\<close> lacks a required column, the upload
  answers 400 with the missing required columns (in the order of the required list, joined
  by a comma), the required columns, and the columns found in the order of the header; the
  store is left as it was. A header without \<^verbatim>\<open>Pressure\<close> alone names exactly
  \<^verbatim>\<open>Pressure\<close> as missing.
\<close>

theorem upload_missing_columns:
  assumes "file_name f \<noteq> []" and "endswith (file_name f) ''.csv''"
      and "read_csv f = Inr df"
      and "\<not> set required_cols \<subseteq> set (columns df)"
  shows "upload s now usr (Some f) =
           (MissingRequiredColumns
              (''Missing required columns: '' @
                 join '', '' (filter (\<lambda>col. col \<notin> set (columns df)) required_cols))
              required_cols (columns df), s)"
proof -
  from assms(4) have "filter (\<lambda>col. col \<notin> set (columns df)) required_cols \<noteq> []"
    by (auto simp: filter_empty_conv)
  with assms(1-3) show ?thesis
    by (simp add: upload_def upload_try_def)
qed

theorem upload_missing_columns_witness:
  "file_name no_pressure_csv \<noteq> [] \<and> endswith (file_name no_pressure_csv) ''.csv'' \<and>
   \<not> set required_cols \<subseteq> set [''Equipment Name'', ''Type'', ''Flowrate'', ''Temperature''] \<and>
   upload (empty_store True) 0 ''user'' (Some no_pressure_csv) =
     (MissingRequiredColumns ''Missing required columns: Pressure''
        [''Equipment Name'', ''Type'', ''Flowrate'', ''Pressure'', ''Temperature'']
        [''Equipment Name'', ''Type'', ''Flowrate'', ''Temperature''], empty_store True)"
proof -
  let ?df = "\<lparr>columns = [''Equipment Name'', ''Type'', ''Flowrate'', ''Temperature''],
              rows = [pump_row, valve_row], series_sum = row_order_sum\<rparr>"
  have 1: "file_name no_pressure_csv \<noteq> []" by (simp add: no_pressure_csv_def)
  have 2: "endswith (file_name no_pressure_csv) ''.csv''"
    by (simp add: no_pressure_csv_def endswith_def)
  have 3: "read_csv no_pressure_csv = Inr ?df" by (simp add: no_pressure_csv_def)
  have 4: "\<not> set required_cols \<subseteq> set (columns ?df)" by (simp add: required_cols_def)
  show ?thesis
    using 1 2 4 upload_missing_columns [OF 1 2 3 4, of "empty_store True" 0 "''user''"]
    by (simp add: required_cols_def)
qed

section \<open>Non-numeric cells\<close>

lemma mean_text: "list_ex is_text cs \<Longrightarrow> mean sm cs = Inl TypeError"
  by (simp add: mean_def)

lemma mean_cases: "mean sm cs = Inl TypeError \<or> (\<exists>x. mean sm cs = Inr x)"
  by (simp add: mean_def)

lemma statistics_text:
  assumes "list_ex (\<lambda>row. is_text (row ''Flowrate'') \<or> is_text (row ''Pressure'') \<or>
                        is_text (row ''Temperature'')) (rows df)"
  shows "statistics df = Inl TypeError"
proof -
  from assms have "list_ex is_text (column df ''Flowrate'') \<or>
      list_ex is_text (column df ''Pressure'') \<or> list_ex is_text (column df ''Temperature'')"
    by (auto simp: column_def list_ex_iff)
  then have "mean (series_sum df) (column df ''Flowrate'') = Inl TypeError \<or>
      mean (series_sum df) (column df ''Pressure'') = Inl TypeError \<or>
      mean (series_sum df) (column df ''Temperature'') = Inl TypeError"
    by (auto simp: mean_text)
  with mean_cases [of "series_sum df" "column df ''Flowrate''"]
    mean_cases [of "series_sum df" "column df ''Pressure''"]
  show ?thesis
    by (auto simp: statistics_def)
qed

text \<open>
  C4, as the code has it. When a row of the frame holds a cell that pandas kept as a
  string (text that is neither a number nor one of the markers pandas reads as a missing
  value) in \<^verbatim>\<open>Flowrate\<close>, \<^verbatim>\<open>Pressure\<close> or \<^verbatim>\<open>Temperature\<close>, the mean of that column raises
  before anything is stored: the upload answers 400 with \<^verbatim>\<open>Error processing CSV\<close> and the
  text of that exception, and the store is left as it was (no dataset, no equipment row,
  no file). The response has no row index and no column name: a bad cell in row 0 of
  \<^verbatim>\<open>Flowrate\<close> and one in row 1 of \<^verbatim>\<open>Temperature\<close> are answered alike. A cell that pandas
  reads as missing is another matter: the mean skips it, and the dataset and its file are
  stored before the rows are.
\<close>

theorem upload_text_cell:
  assumes "file_name f \<noteq> []" and "endswith (file_name f) ''.csv''"
      and "read_csv f = Inr df"
      and "set required_cols \<subseteq> set (columns df)"
      and "list_ex (\<lambda>row. is_text (row ''Flowrate'') \<or> is_text (row ''Pressure'') \<or>
                          is_text (row ''Temperature'')) (rows df)"
  shows "upload s now usr (Some f) = (ErrorProcessingCsv TypeError, s)"
proof -
  from assms(4) have "filter (\<lambda>col. col \<notin> set (columns df)) required_cols = []"
    by (auto simp: filter_empty_conv)
  with assms(1-3) statistics_text [OF assms(5)] show ?thesis
    by (simp add: upload_def upload_try_def)
qed

theorem upload_text_cell_witness:
  "file_name bad_flowrate_csv \<noteq> [] \<and> endswith (file_name bad_flowrate_csv) ''.csv'' \<and>
   is_text ((pump_row(''Flowrate'' := Text ''fast'')) ''Flowrate'') \<and>
   upload store5 6 ''user'' (Some bad_flowrate_csv) = (ErrorProcessingCsv TypeError, store5)"
proof -
  let ?df = "\<lparr>columns = required_cols,
              rows = [pump_row(''Flowrate'' := Text ''fast''), valve_row],
              series_sum = row_order_sum\<rparr>"
  have 1: "file_name bad_flowrate_csv \<noteq> []" by (simp add: bad_flowrate_csv_def)
  have 2: "endswith (file_name bad_flowrate_csv) ''.csv''"
    by (simp add: bad_flowrate_csv_def endswith_def)
  have 3: "read_csv bad_flowrate_csv = Inr ?df" by (simp add: bad_flowrate_csv_def)
  have 4: "set required_cols \<subseteq> set (columns ?df)" by simp
  have 5: "list_ex (\<lambda>row. is_text (row ''Flowrate'') \<or> is_text (row ''Pressure'') \<or>
                          is_text (row ''Temperature'')) (rows ?df)" by simp
  show ?thesis
    using 1 2 upload_text_cell [OF 1 2 3 4 5, of store5 6 "''user''"] by simp
qed

lemma statistics_missing_flowrate:
  "statistics \<lparr>columns = cs, rows = [pump_row(''Flowrate'' := Missing), valve_row],
               series_sum = row_order_sum\<rparr>
     = Inr (2, Fin 20, Fin (11 / 2), Fin 105)"
  by (simp add: statistics_def column_def mean_def pump_row_def valve_row_def float_defs)

theorem upload_text_cell_counterexample:
  "upload (empty_store True) 1 ''user'' (Some bad_flowrate_csv)
     = (ErrorProcessingCsv TypeError, empty_store True) \<and>
   upload (empty_store True) 1 ''user'' (Some bad_temperature_csv)
     = (ErrorProcessingCsv TypeError, empty_store True) \<and>
   upload (empty_store False) 1 ''user'' (Some missing_flowrate_csv)
     = (ErrorProcessingCsv IntegrityError,
        \<lparr>datasets = [\<lparr>pk = 0, name = ''data.csv'', uploaded_by = ''user'', uploaded_at = 1,
                      file_field = Some 0, total_count = 2, avg_flowrate = Fin 20,
                      avg_pressure = Fin (11 / 2), avg_temperature = Fin 105\<rparr>],
         equipments = [], storage = {0}, next_dataset_pk = 1, next_equipment_pk = 0,
         next_file = 1, nan_ok = False, locked = {}, log = []\<rparr>)"
proof -
  have a: "upload (empty_store True) 1 ''user'' (Some bad_flowrate_csv)
             = (ErrorProcessingCsv TypeError, empty_store True)"
    by (simp add: upload_def upload_try_def statistics_def column_def mean_def endswith_def
          required_cols_def bad_flowrate_csv_def pump_row_def valve_row_def)
  have b: "upload (empty_store True) 1 ''user'' (Some bad_temperature_csv)
             = (ErrorProcessingCsv TypeError, empty_store True)"
    by (simp add: upload_def upload_try_def statistics_def column_def mean_def endswith_def
          required_cols_def bad_temperature_csv_def pump_row_def valve_row_def float_defs)
  have c: "upload (empty_store False) 1 ''user'' (Some missing_flowrate_csv)
     = (ErrorProcessingCsv IntegrityError,
        \<lparr>datasets = [\<lparr>pk = 0, name = ''data.csv'', uploaded_by = ''user'', uploaded_at = 1,
                      file_field = Some 0, total_count = 2, avg_flowrate = Fin 20,
                      avg_pressure = Fin (11 / 2), avg_temperature = Fin 105\<rparr>],
         equipments = [], storage = {0}, next_dataset_pk = 1, next_equipment_pk = 0,
         next_file = 1, nan_ok = False, locked = {}, log = []\<rparr>)"
    by (simp add: upload_def upload_try_def store_and_prune_def create_def bulk_create_def
          endswith_def required_cols_def has_nan_def Let_def statistics_missing_flowrate
          missing_flowrate_csv_def empty_store_def pump_row_def valve_row_def)
  from a b c show ?thesis by simp
qed

section \<open>Faults, and frames that are empty or valid\<close>

lemma model_delete_locked [simp]: "locked (model_delete d s) = locked s"
  by (simp add: model_delete_def)

lemma file_locked_cong: "locked s' = locked s \<Longrightarrow> file_locked s' = file_locked s"
  by (auto simp: file_locked_def fun_eq_iff split: option.splits)

lemma file_delete_unlocked:
  "\<not> file_locked s d \<Longrightarrow> \<exists>s1. file_delete d s = (Inr (), s1) \<and> locked s1 = locked s"
  by (cases "file_field d") (auto simp: file_locked_def file_delete_def)

lemma file_delete_locked:
  "file_locked s d \<Longrightarrow> file_delete d s = (Inl PermissionError, s)"
  by (cases "file_field d") (auto simp: file_locked_def file_delete_def)

lemma delete_old_unlocked:
  "locked s = {} \<Longrightarrow> \<exists>s'. delete_old L s = (Inr (), s')"
proof (induction L arbitrary: s)
  case Nil
  then show ?case by simp
next
  case (Cons d L)
  from Cons.prems have "\<not> file_locked s d"
    by (simp add: file_locked_def split: option.splits)
  from file_delete_unlocked [OF this] obtain s1 where
    fd: "file_delete d s = (Inr (), s1)" and l: "locked s1 = locked s" by blast
  from l Cons.prems have "locked (model_delete d s1) = {}" by simp
  from Cons.IH [OF this] fd show ?case by simp
qed

lemma delete_old_locked:
  "list_ex (file_locked s) L \<Longrightarrow> \<exists>s'. delete_old L s = (Inl PermissionError, s')"
proof (induction L arbitrary: s)
  case Nil
  then show ?case by simp
next
  case (Cons d L)
  show ?case
  proof (cases "file_locked s d")
    case True
    from file_delete_locked [OF this] show ?thesis by simp
  next
    case False
    from file_delete_unlocked [OF this] obtain s1 where
      fd: "file_delete d s = (Inr (), s1)" and l: "locked s1 = locked s" by blast
    from False Cons.prems have "list_ex (file_locked s) L" by simp
    moreover have "file_locked (model_delete d s1) = file_locked s"
      by (rule file_locked_cong) (simp add: l)
    ultimately have "list_ex (file_locked (model_delete d s1)) L" by simp
    from Cons.IH [OF this] fd show ?thesis by simp
  qed
qed

lemma numbers_valid:
  "list_all is_number cs \<Longrightarrow> numbers cs = map cell_value cs \<and> \<not> list_ex is_text cs"
proof (induction cs)
  case Nil
  then show ?case by simp
next
  case (Cons c cs)
  then show ?case by (cases c) auto
qed

lemma mean_valid:
  assumes "list_all is_number cs" and "cs \<noteq> []"
  shows "mean sm cs = Inr (fdiv (sm (map cell_value cs)) (rnd (real (length cs))))"
  using numbers_valid [OF assms(1)] assms(2) by (simp add: mean_def)

lemma statistics_valid:
  assumes "list_all numeric_row (rows df)" and "rows df \<noteq> []"
  shows "statistics df =
           Inr (length (rows df), float_mean df ''Flowrate'', float_mean df ''Pressure'',
                float_mean df ''Temperature'')"
proof -
  have a: "list_all is_number (column df ''Flowrate'')"
    and b: "list_all is_number (column df ''Pressure'')"
    and c: "list_all is_number (column df ''Temperature'')"
    using assms(1) by (auto simp: column_def list_all_iff numeric_row_def)
  have ne: "column df ''Flowrate'' \<noteq> []" "column df ''Pressure'' \<noteq> []"
    "column df ''Temperature'' \<noteq> []"
    using assms(2) by (simp_all add: column_def)
  show ?thesis
    using mean_valid [OF a ne(1), of "series_sum df"] mean_valid [OF b ne(2), of "series_sum df"]
      mean_valid [OF c ne(3), of "series_sum df"]
    by (simp add: statistics_def float_mean_def column_def o_def)
qed

lemma equipment_objects_valid:
  "list_all numeric_row rs \<Longrightarrow>
     \<exists>objs. equipment_objects d rs = Inr objs \<and> length objs = length rs \<and>
            \<not> list_ex has_nan objs \<and> list_all (\<lambda>e. dataset e = pk d) objs"
proof (induction rs)
  case Nil
  then show ?case by simp
next
  case (Cons r rs)
  then obtain objs where o: "equipment_objects d rs = Inr objs" "length objs = length rs"
    "\<not> list_ex has_nan objs" "list_all (\<lambda>e. dataset e = pk d) objs" by auto
  from Cons.prems have n: "numeric_row r" by simp
  then obtain x1 t1 x2 t2 x3 t3 where
    "r ''Flowrate'' = Number x1 t1" "r ''Pressure'' = Number x2 t2"
    "r ''Temperature'' = Number x3 t3"
    unfolding numeric_row_def
    by (metis is_number.elims(2))
  with o show ?case by (auto simp: has_nan_def list_ex_iff)
qed

lemma sort_key_snoc_newest:
  assumes "list_all (\<lambda>x. f d < f x) xs"
  shows "sort_key f (xs @ [d]) = d # sort_key f xs"
  using assms
proof (induction xs)
  case Nil
  then show ?case by simp
next
  case (Cons x xs)
  then show ?case by (auto simp: sort_key_def)
qed

section \<open>A header and no rows\<close>

text \<open>
  C1, as the code has it. A file named \<^verbatim>\<open>*.csv\<close> whose frame has every required column
  and no row is not answered with \<^verbatim>\<open>CSV file is empty\<close>: pandas raises no
  \<open>EmptyDataError\<close> for it, the count is 0 and the three means are NaN, and the view goes
  on to store them. Either the upload answers 201 with a dataset of 0 rows and NaN means,
  or the database rejects the NaN (after the file was written to the storage), or the
  pruning fails; the last two are answered with \<^verbatim>\<open>Error processing CSV\<close>.
\<close>

theorem upload_header_only:
  assumes "file_name f \<noteq> []" and "endswith (file_name f) ''.csv''"
      and "read_csv f = Inr df"
      and "set required_cols \<subseteq> set (columns df)"
      and "rows df = []"
  shows "fst (upload s now usr (Some f)) \<noteq> CsvFileIsEmpty \<and>
         ((\<exists>p. fst (upload s now usr (Some f)) = Created p \<and> d_total_count p = 0 \<and>
               d_avg_flowrate p = NaN \<and> d_avg_pressure p = NaN \<and> d_avg_temperature p = NaN)
          \<or> fst (upload s now usr (Some f)) = ErrorProcessingCsv IntegrityError
          \<or> fst (upload s now usr (Some f)) = ErrorProcessingCsv PermissionError)"
proof -
  from assms(4) have m: "filter (\<lambda>col. col \<notin> set (columns df)) required_cols = []"
    by (auto simp: filter_empty_conv)
  have u: "upload s now usr (Some f) =
      (case store_and_prune s now usr (file_name f) df (0, NaN, NaN, NaN) of
         (Inr resp, s') \<Rightarrow> (resp, s')
       | (Inl e, s') \<Rightarrow>
           if e = EmptyDataError then (CsvFileIsEmpty, s') else (ErrorProcessingCsv e, s'))"
    using assms(1-3) m statistics_empty [OF assms(5)]
    by (simp add: upload_def upload_try_def)
  show ?thesis
  proof (cases "nan_ok s")
    case False
    then have "store_and_prune s now usr (file_name f) df (0, NaN, NaN, NaN)
               = (Inl IntegrityError,
                  s\<lparr>storage := insert (next_file s) (storage s), next_file := Suc (next_file s)\<rparr>)"
      by (simp add: store_and_prune_def create_def Let_def)
    with u show ?thesis by simp
  next
    case True
    obtain d s1 where c: "create s (file_name f) usr now 0 NaN NaN NaN = (Inr d, s1)"
      using True by (simp add: create_def Let_def)
    note c' = create_Inr [OF c]
    obtain s2 where b: "bulk_create s1 [] = (Inr (), s2)"
      by (simp add: bulk_create_def)
    show ?thesis
    proof (cases "keep_last_5 s2")
      case (Pair r s3)
      show ?thesis
      proof (cases r)
        case (Inl e)
        with Pair have "e = PermissionError"
          using delete_old_Inl [of "drop 5 (objects_all s2)" s2 e s3]
          by (simp add: keep_last_5_def)
        with Inl Pair c b assms(5) u show ?thesis
          by (simp add: store_and_prune_def)
      next
        case (Inr v)
        with Pair c b assms(5) u c'(8-11) show ?thesis
          by (simp add: store_and_prune_def DatasetDetailSerializer_def)
      qed
    qed
  qed
qed

theorem upload_header_only_witness:
  "file_name header_only \<noteq> [] \<and> endswith (file_name header_only) ''.csv'' \<and>
   upload (empty_store True) 1 ''user'' (Some header_only) =
     (Created \<lparr>d_id = 0, d_name = ''data.csv'', d_uploaded_at = 1, d_total_count = 0,
               d_avg_flowrate = NaN, d_avg_pressure = NaN, d_avg_temperature = NaN,
               d_equipments = []\<rparr>,
      \<lparr>datasets = [\<lparr>pk = 0, name = ''data.csv'', uploaded_by = ''user'', uploaded_at = 1,
                    file_field = Some 0, total_count = 0, avg_flowrate = NaN,
                    avg_pressure = NaN, avg_temperature = NaN\<rparr>],
       equipments = [], storage = {0}, next_dataset_pk = 1, next_equipment_pk = 0,
       next_file = 1, nan_ok = True, locked = {}, log = []\<rparr>) \<and>
   upload (empty_store False) 1 ''user'' (Some header_only) =
     (ErrorProcessingCsv IntegrityError,
      \<lparr>datasets = [], equipments = [], storage = {0}, next_dataset_pk = 0,
       next_equipment_pk = 0, next_file = 1, nan_ok = False, locked = {}, log = []\<rparr>)"
proof -
  let ?df = "\<lparr>columns = required_cols, rows = [], series_sum = row_order_sum\<rparr>"
  have 1: "file_name header_only \<noteq> []" by (simp add: header_only_def)
  have 2: "endswith (file_name header_only) ''.csv''"
    by (simp add: header_only_def endswith_def)
  have 3: "read_csv header_only = Inr ?df" by (simp add: header_only_def)
  have 4: "set required_cols \<subseteq> set (columns ?df)" by simp
  have 5: "rows ?df = []" by simp
  note t = upload_header_only [OF 1 2 3 4 5, of "empty_store True" 1 "''user''"]
  have a: "upload (empty_store True) 1 ''user'' (Some header_only) =
     (Created \<lparr>d_id = 0, d_name = ''data.csv'', d_uploaded_at = 1, d_total_count = 0,
               d_avg_flowrate = NaN, d_avg_pressure = NaN, d_avg_temperature = NaN,
               d_equipments = []\<rparr>,
      \<lparr>datasets = [\<lparr>pk = 0, name = ''data.csv'', uploaded_by = ''user'', uploaded_at = 1,
                    file_field = Some 0, total_count = 0, avg_flowrate = NaN,
                    avg_pressure = NaN, avg_temperature = NaN\<rparr>],
       equipments = [], storage = {0}, next_dataset_pk = 1, next_equipment_pk = 0,
       next_file = 1, nan_ok = True, locked = {}, log = []\<rparr>)"
    by (simp add: upload_defs header_only_def empty_store_def statistics_empty)
  have b: "upload (empty_store False) 1 ''user'' (Some header_only) =
     (ErrorProcessingCsv IntegrityError,
      \<lparr>datasets = [], equipments = [], storage = {0}, next_dataset_pk = 0,
       next_equipment_pk = 0, next_file = 1, nan_ok = False, locked = {}, log = []\<rparr>)"
    by (simp add: upload_defs header_only_def empty_store_def statistics_empty)
  show ?thesis using 1 2 t a b by simp
qed

section \<open>Statistics of a valid upload\<close>

lemma upload_valid_steps:
  assumes "file_name f \<noteq> []" and "endswith (file_name f) ''.csv''"
      and "read_csv f = Inr df"
      and "set required_cols \<subseteq> set (columns df)"
      and "rows df \<noteq> []"
      and "list_all numeric_row (rows df)"
      and "nan_ok s \<or>
           (float_mean df ''Flowrate'' \<noteq> NaN \<and> float_mean df ''Pressure'' \<noteq> NaN \<and>
            float_mean df ''Temperature'' \<noteq> NaN)"
  shows "\<exists>d s1 objs s2.
           create s (file_name f) usr now (length (rows df)) (float_mean df ''Flowrate'')
             (float_mean df ''Pressure'') (float_mean df ''Temperature'') = (Inr d, s1) \<and>
           equipment_objects d (rows df) = Inr objs \<and> length objs = length (rows df) \<and>
           list_all (\<lambda>e. dataset e = pk d) objs \<and>
           bulk_create s1 objs = (Inr (), s2) \<and>
           upload s now usr (Some f) =
             (case keep_last_5 s2 of
                (Inl e, s3) \<Rightarrow> (ErrorProcessingCsv e, s3)
              | (Inr v, s3) \<Rightarrow> (Created (DatasetDetailSerializer s3 d), s3))"
proof -
  from assms(4) have m: "filter (\<lambda>col. col \<notin> set (columns df)) required_cols = []"
    by (auto simp: filter_empty_conv)
  let ?st = "(length (rows df), float_mean df ''Flowrate'', float_mean df ''Pressure'',
              float_mean df ''Temperature'')"
  have u: "upload s now usr (Some f) =
      (case store_and_prune s now usr (file_name f) df ?st of
         (Inr resp, s') \<Rightarrow> (resp, s')
       | (Inl e, s') \<Rightarrow>
           if e = EmptyDataError then (CsvFileIsEmpty, s') else (ErrorProcessingCsv e, s'))"
    using assms(1-3) m statistics_valid [OF assms(6,5)]
    by (simp add: upload_def upload_try_def)
  obtain d s1 where c: "create s (file_name f) usr now (length (rows df))
      (float_mean df ''Flowrate'') (float_mean df ''Pressure'')
      (float_mean df ''Temperature'') = (Inr d, s1)"
    using assms(7) by (auto simp: create_def Let_def)
  from equipment_objects_valid [OF assms(6), of d] obtain objs where
    o: "equipment_objects d (rows df) = Inr objs" "length objs = length (rows df)"
       "\<not> list_ex has_nan objs" "list_all (\<lambda>e. dataset e = pk d) objs" by blast
  obtain s2 where b: "bulk_create s1 objs = (Inr (), s2)"
    using o(3) by (simp add: bulk_create_def)
  have "upload s now usr (Some f) =
          (case keep_last_5 s2 of
             (Inl e, s3) \<Rightarrow> (ErrorProcessingCsv e, s3)
           | (Inr v, s3) \<Rightarrow> (Created (DatasetDetailSerializer s3 d), s3))"
  proof (cases "keep_last_5 s2")
    case (Pair r s3)
    show ?thesis
    proof (cases r)
      case (Inl e)
      with Pair have "e = PermissionError"
        using delete_old_Inl [of "drop 5 (objects_all s2)" s2 e s3]
        by (simp add: keep_last_5_def)
      with Inl Pair c o(1) b u show ?thesis by (simp add: store_and_prune_def)
    next
      case (Inr v)
      with Pair c o(1) b u show ?thesis by (simp add: store_and_prune_def)
    qed
  qed
  with c o(1,2,4) b show ?thesis by blast
qed

lemma filter_eq_pk:
  assumes "k \<notin> K"
  shows "filter (\<lambda>r. dataset (snd r) = k) (filter (\<lambda>(i, e). dataset e \<notin> K) xs)
           = filter (\<lambda>r. dataset (snd r) = k) xs"
  using assms by (induction xs) auto

lemma equipments_of_alt:
  "equipments_of s d = filter (\<lambda>r. dataset (snd r) = pk d) (equipments s)"
  by (simp add: equipments_of_def case_prod_unfold)

text \<open>
  The newest dataset heads the ranking, so the pruning loop runs over the old datasets
  beyond the four newest; whatever the loop does, the new dataset and its rows stay.
\<close>

lemma newest_kept:
  assumes "wf_store s"
      and "create s nm usr now cnt af ap ate = (Inr d, s1)"
      and "list_all (\<lambda>e. dataset e = pk d) objs"
      and "bulk_create s1 objs = (Inr (), s2)"
      and "list_all (\<lambda>d. uploaded_at d < now) (datasets s)"
      and "keep_last_5 s2 = (r, s')"
  shows "keep_last_5 s2 = delete_old (drop 4 (objects_all s)) s2"
    and "pk d \<notin> pk ` set (drop 4 (objects_all s))"
    and "d \<in> set (datasets s')"
    and "length (equipments_of s' d) = length objs"
proof -
  note c' = create_Inr [OF assms(2)]
  note b' = bulk_create_Inr [OF assms(4)]
  let ?L = "drop 4 (objects_all s)"
  have ds2: "datasets s2 = datasets s @ [d]" using c'(1) b'(1) by simp
  have "list_all (\<lambda>x. - uploaded_at d < - uploaded_at x) (datasets s)"
    using assms(5) c'(3) by (simp add: list_all_iff)
  from sort_key_snoc_newest [of "\<lambda>d. - uploaded_at d" d "datasets s", OF this]
  have oa: "objects_all s2 = d # objects_all s"
    by (simp add: objects_all_def ds2)
  show k: "keep_last_5 s2 = delete_old ?L s2"
    by (simp add: keep_last_5_def oa numeral_eq_Suc)
  with assms(6) have f: "delete_old ?L s2 = (r, s')" by simp
  note kept = delete_old_kept [OF f]
  show fresh: "pk d \<notin> pk ` set ?L"
  proof
    assume "pk d \<in> pk ` set ?L"
    then obtain x where "x \<in> set ?L" "pk x = pk d" by auto
    then have "x \<in> set (datasets s)"
      using set_drop_subset [of 4 "objects_all s"] by (auto simp: objects_all_def)
    with assms(1) have "pk x < next_dataset_pk s" by (simp add: wf_store_def list_all_iff)
    with \<open>pk x = pk d\<close> c'(2) show False by simp
  qed
  have "d \<in> set (filter (\<lambda>r. pk r \<notin> pk ` set ?L) (datasets s2))"
    using fresh ds2 by simp
  with kept have "d \<in> set (filter (\<lambda>r. pk r \<notin> pk ` set ?L) (datasets s'))" by simp
  then show "d \<in> set (datasets s')" by simp
  have old: "filter (\<lambda>r. dataset (snd r) = pk d) (equipments s) = []"
    using assms(1) c'(2) by (auto simp: wf_store_def list_all_iff filter_empty_conv)
  have new: "filter (\<lambda>r. dataset (snd r) = pk d)
               (zip [next_equipment_pk s1 ..< next_equipment_pk s1 + length objs] objs)
             = zip [next_equipment_pk s1 ..< next_equipment_pk s1 + length objs] objs"
    using assms(3) by (auto simp: filter_id_conv list_all_iff dest: set_zip_rightD)
  have "equipments_of s' d
          = filter (\<lambda>r. dataset (snd r) = pk d)
              (filter (\<lambda>(i, e). dataset e \<notin> pk ` set ?L) (equipments s'))"
    unfolding equipments_of_alt by (rule filter_eq_pk [OF fresh, symmetric])
  also have "\<dots> = filter (\<lambda>r. dataset (snd r) = pk d)
              (filter (\<lambda>(i, e). dataset e \<notin> pk ` set ?L) (equipments s2))"
    using kept by simp
  also have "\<dots> = filter (\<lambda>r. dataset (snd r) = pk d) (equipments s2)"
    by (rule filter_eq_pk [OF fresh])
  also have "\<dots> = zip [next_equipment_pk s1 ..< next_equipment_pk s1 + length objs] objs"
    using b'(6) c'(6) old new by simp
  finally show "length (equipments_of s' d) = length objs" by simp
qed

text \<open>
  C5, as the code has it. For a file named \<^verbatim>\<open>*.csv\<close> whose frame has the required columns
  and K rows, K at least 1, each with numbers in \<^verbatim>\<open>Flowrate\<close>, \<^verbatim>\<open>Pressure\<close> and
  \<^verbatim>\<open>Temperature\<close>: the upload answers 201 when no file deletion can fail and the database
  takes the three means; and whenever it answers 201, the dataset created has
  \<^verbatim>\<open>total_count\<close> K and, as each of its three means, the float mean of that column: the
  float sum pandas computes of the column, divided by K in float arithmetic. When the
  upload is the newest, the row with these values and its K equipment rows are in the
  store. The float mean can be far from the arithmetic mean: for the flowrates
  \<open>10\<^sup>1\<^sup>6\<close>, 1, \<open>-10\<^sup>1\<^sup>6\<close> it is 0, not a third, and for two flowrates \<open>2\<^sup>1\<^sup>0\<^sup>2\<^sup>3\<close> it is
  infinite.
\<close>

theorem upload_statistics:
  assumes "file_name f \<noteq> []" and "endswith (file_name f) ''.csv''"
      and "read_csv f = Inr df"
      and "set required_cols \<subseteq> set (columns df)"
      and "rows df \<noteq> []"
      and "list_all numeric_row (rows df)"
  shows "(locked s = {} \<and>
          (nan_ok s \<or>
           (float_mean df ''Flowrate'' \<noteq> NaN \<and> float_mean df ''Pressure'' \<noteq> NaN \<and>
            float_mean df ''Temperature'' \<noteq> NaN)) \<longrightarrow>
            (\<exists>p s'. upload s now usr (Some f) = (Created p, s'))) \<and>
         (\<forall>p s'. upload s now usr (Some f) = (Created p, s') \<longrightarrow>
            d_total_count p = length (rows df) \<and>
            d_avg_flowrate p = float_mean df ''Flowrate'' \<and>
            d_avg_pressure p = float_mean df ''Pressure'' \<and>
            d_avg_temperature p = float_mean df ''Temperature'' \<and>
            (wf_store s \<and> list_all (\<lambda>d. uploaded_at d < now) (datasets s) \<longrightarrow>
               (\<exists>d. d \<in> set (datasets s') \<and> pk d = d_id p \<and> pk d = next_dataset_pk s \<and>
                    total_count d = length (rows df) \<and>
                    avg_flowrate d = float_mean df ''Flowrate'' \<and>
                    avg_pressure d = float_mean df ''Pressure'' \<and>
                    avg_temperature d = float_mean df ''Temperature'' \<and>
                    length (equipments_of s' d) = length (rows df))))"
proof -
  have 1: "locked s = {} \<and>
          (nan_ok s \<or>
           (float_mean df ''Flowrate'' \<noteq> NaN \<and> float_mean df ''Pressure'' \<noteq> NaN \<and>
            float_mean df ''Temperature'' \<noteq> NaN)) \<longrightarrow>
            (\<exists>p s'. upload s now usr (Some f) = (Created p, s'))"
  proof
    assume a: "locked s = {} \<and>
          (nan_ok s \<or>
           (float_mean df ''Flowrate'' \<noteq> NaN \<and> float_mean df ''Pressure'' \<noteq> NaN \<and>
            float_mean df ''Temperature'' \<noteq> NaN))"
    then have n: "nan_ok s \<or>
           (float_mean df ''Flowrate'' \<noteq> NaN \<and> float_mean df ''Pressure'' \<noteq> NaN \<and>
            float_mean df ''Temperature'' \<noteq> NaN)" by simp
    from upload_valid_steps [OF assms n, of usr now] obtain d s1 objs s2 where
      c: "create s (file_name f) usr now (length (rows df)) (float_mean df ''Flowrate'')
             (float_mean df ''Pressure'') (float_mean df ''Temperature'') = (Inr d, s1)" and
      b: "bulk_create s1 objs = (Inr (), s2)" and
      u: "upload s now usr (Some f) =
             (case keep_last_5 s2 of
                (Inl e, s3) \<Rightarrow> (ErrorProcessingCsv e, s3)
              | (Inr v, s3) \<Rightarrow> (Created (DatasetDetailSerializer s3 d), s3))"
      by blast
    from a have "locked s2 = {}"
      using create_Inr(12) [OF c] bulk_create_Inr(5) [OF b] by simp
    from delete_old_unlocked [OF this, of "drop 5 (objects_all s2)"] u
    show "\<exists>p s'. upload s now usr (Some f) = (Created p, s')"
      by (auto simp: keep_last_5_def)
  qed
  have 2: "d_total_count p = length (rows df) \<and>
            d_avg_flowrate p = float_mean df ''Flowrate'' \<and>
            d_avg_pressure p = float_mean df ''Pressure'' \<and>
            d_avg_temperature p = float_mean df ''Temperature'' \<and>
            (wf_store s \<and> list_all (\<lambda>d. uploaded_at d < now) (datasets s) \<longrightarrow>
               (\<exists>d. d \<in> set (datasets s') \<and> pk d = d_id p \<and> pk d = next_dataset_pk s \<and>
                    total_count d = length (rows df) \<and>
                    avg_flowrate d = float_mean df ''Flowrate'' \<and>
                    avg_pressure d = float_mean df ''Pressure'' \<and>
                    avg_temperature d = float_mean df ''Temperature'' \<and>
                    length (equipments_of s' d) = length (rows df)))"
    if up: "upload s now usr (Some f) = (Created p, s')" for p s'
  proof -
    from upload_Created [OF up] obtain f' df' cnt af ap ate d s1 objs s2 where
      "Some f = Some f' \<and> read_csv f' = Inr df' \<and> statistics df' = Inr (cnt, af, ap, ate) \<and>
       create s (file_name f') usr now cnt af ap ate = (Inr d, s1) \<and>
       equipment_objects d (rows df') = Inr objs \<and> bulk_create s1 objs = (Inr (), s2) \<and>
       keep_last_5 s2 = (Inr (), s') \<and> p = DatasetDetailSerializer s' d"
      by (elim exE)
    then have ff: "f' = f" and rd: "read_csv f' = Inr df'"
      and st: "statistics df' = Inr (cnt, af, ap, ate)"
      and c: "create s (file_name f') usr now cnt af ap ate = (Inr d, s1)"
      and eo: "equipment_objects d (rows df') = Inr objs"
      and b: "bulk_create s1 objs = (Inr (), s2)"
      and k: "keep_last_5 s2 = (Inr (), s')"
      and p: "p = DatasetDetailSerializer s' d" by simp_all
    from ff rd assms(3) have dd: "df' = df" by simp
    from st dd statistics_valid [OF assms(6,5)] have v: "cnt = length (rows df)"
      "af = float_mean df ''Flowrate''" "ap = float_mean df ''Pressure''"
      "ate = float_mean df ''Temperature''" by simp_all
    note c' = create_Inr [OF c]
    from equipment_objects_valid [OF assms(6), of d] eo dd have
      o: "length objs = length (rows df)" "list_all (\<lambda>e. dataset e = pk d) objs" by auto
    have a: "d_total_count p = length (rows df) \<and>
            d_avg_flowrate p = float_mean df ''Flowrate'' \<and>
            d_avg_pressure p = float_mean df ''Pressure'' \<and>
            d_avg_temperature p = float_mean df ''Temperature''"
      using p c'(8-11) v by (simp add: DatasetDetailSerializer_def)
    have r: "wf_store s \<and> list_all (\<lambda>d. uploaded_at d < now) (datasets s) \<longrightarrow>
               (\<exists>d. d \<in> set (datasets s') \<and> pk d = d_id p \<and> pk d = next_dataset_pk s \<and>
                    total_count d = length (rows df) \<and>
                    avg_flowrate d = float_mean df ''Flowrate'' \<and>
                    avg_pressure d = float_mean df ''Pressure'' \<and>
                    avg_temperature d = float_mean df ''Temperature'' \<and>
                    length (equipments_of s' d) = length (rows df))"
    proof
      assume w: "wf_store s \<and> list_all (\<lambda>d. uploaded_at d < now) (datasets s)"
      then have w1: "wf_store s" and w2: "list_all (\<lambda>d. uploaded_at d < now) (datasets s)"
        by simp_all
      note nk = newest_kept [OF w1 c o(2) b w2 k]
      have "d \<in> set (datasets s') \<and> pk d = d_id p \<and> pk d = next_dataset_pk s \<and>
                    total_count d = length (rows df) \<and>
                    avg_flowrate d = float_mean df ''Flowrate'' \<and>
                    avg_pressure d = float_mean df ''Pressure'' \<and>
                    avg_temperature d = float_mean df ''Temperature'' \<and>
                    length (equipments_of s' d) = length (rows df)"
        using nk(3,4) p c'(2,8-11) v o(1) by (simp add: DatasetDetailSerializer_def)
      then show "\<exists>d. d \<in> set (datasets s') \<and> pk d = d_id p \<and> pk d = next_dataset_pk s \<and>
                    total_count d = length (rows df) \<and>
                    avg_flowrate d = float_mean df ''Flowrate'' \<and>
                    avg_pressure d = float_mean df ''Pressure'' \<and>
                    avg_temperature d = float_mean df ''Temperature'' \<and>
                    length (equipments_of s' d) = length (rows df)" by blast
    qed
    from a r show ?thesis by blast
  qed
  from 1 2 show ?thesis by blast
qed

theorem upload_statistics_witness:
  "file_name sample_csv \<noteq> [] \<and> endswith (file_name sample_csv) ''.csv'' \<and>
   list_all numeric_row [pump_row, valve_row] \<and> locked (empty_store True) = {} \<and>
   nan_ok (empty_store True) \<and> wf_store (empty_store True) \<and>
   (\<exists>p s' d. upload (empty_store True) 1 ''user'' (Some sample_csv) = (Created p, s') \<and>
      d_total_count p = 2 \<and> d_avg_flowrate p = Fin 15 \<and> d_avg_pressure p = Fin (11 / 2) \<and>
      d_avg_temperature p = Fin 105 \<and>
      d \<in> set (datasets s') \<and> pk d = d_id p \<and> total_count d = 2 \<and>
      avg_flowrate d = Fin 15 \<and> avg_pressure d = Fin (11 / 2) \<and> avg_temperature d = Fin 105 \<and>
      length (equipments_of s' d) = 2)"
proof -
  let ?df = "\<lparr>columns = required_cols, rows = [pump_row, valve_row],
              series_sum = row_order_sum\<rparr>"
  let ?s = "empty_store True"
  have 1: "file_name sample_csv \<noteq> []" by (simp add: sample_csv_def)
  have 2: "endswith (file_name sample_csv) ''.csv''"
    by (simp add: sample_csv_def endswith_def)
  have 3: "read_csv sample_csv = Inr ?df" by (simp add: sample_csv_def)
  have 4: "set required_cols \<subseteq> set (columns ?df)" by simp
  have 5: "rows ?df \<noteq> []" by simp
  have 6: "list_all numeric_row (rows ?df)"
    by (simp add: numeric_row_def pump_row_def valve_row_def)
  have 7: "locked ?s = {}" "nan_ok ?s" by (simp_all add: empty_store_def)
  have 8: "wf_store ?s" "list_all (\<lambda>d. uploaded_at d < 1) (datasets ?s)"
    by (simp_all add: wf_store_def empty_store_def)
  have m: "length (rows ?df) = 2" "float_mean ?df ''Flowrate'' = Fin 15"
    "float_mean ?df ''Pressure'' = Fin (11 / 2)" "float_mean ?df ''Temperature'' = Fin 105"
    using statistics_valid [OF 6 5] statistics_sample [of required_cols] by simp_all
  note t = upload_statistics [OF 1 2 3 4 5 6, of ?s 1 "''user''"]
  from t 7 obtain p s' where
    u: "upload ?s 1 ''user'' (Some sample_csv) = (Created p, s')" by blast
  with t 8 obtain d where "d_total_count p = length (rows ?df) \<and>
      d_avg_flowrate p = float_mean ?df ''Flowrate'' \<and>
      d_avg_pressure p = float_mean ?df ''Pressure'' \<and>
      d_avg_temperature p = float_mean ?df ''Temperature'' \<and>
      d \<in> set (datasets s') \<and> pk d = d_id p \<and>
      total_count d = length (rows ?df) \<and>
      avg_flowrate d = float_mean ?df ''Flowrate'' \<and>
      avg_pressure d = float_mean ?df ''Pressure'' \<and>
      avg_temperature d = float_mean ?df ''Temperature'' \<and>
      length (equipments_of s' d) = length (rows ?df)" by blast
  then have "d_total_count p = 2 \<and> d_avg_flowrate p = Fin 15 \<and>
      d_avg_pressure p = Fin (11 / 2) \<and> d_avg_temperature p = Fin 105 \<and>
      d \<in> set (datasets s') \<and> pk d = d_id p \<and> total_count d = 2 \<and>
      avg_flowrate d = Fin 15 \<and> avg_pressure d = Fin (11 / 2) \<and> avg_temperature d = Fin 105 \<and>
      length (equipments_of s' d) = 2"
    unfolding m by simp
  with u have "\<exists>p s' d. upload ?s 1 ''user'' (Some sample_csv) = (Created p, s') \<and>
      d_total_count p = 2 \<and> d_avg_flowrate p = Fin 15 \<and> d_avg_pressure p = Fin (11 / 2) \<and>
      d_avg_temperature p = Fin 105 \<and>
      d \<in> set (datasets s') \<and> pk d = d_id p \<and> total_count d = 2 \<and>
      avg_flowrate d = Fin 15 \<and> avg_pressure d = Fin (11 / 2) \<and> avg_temperature d = Fin 105 \<and>
      length (equipments_of s' d) = 2" by blast
  with 1 2 6 7 8(1) show ?thesis by simp
qed

text \<open>
  The mean stored is not the arithmetic mean to within \<open>10\<^sup>-\<^sup>9\<close>. The upload of three
  rows whose flowrates are \<open>10\<^sup>1\<^sup>6\<close>, 1 and \<open>-10\<^sup>1\<^sup>6\<close>, summed in row order, answers 201 and
  stores 0 as the mean flowrate; the arithmetic mean is a third. For two flowrates
  \<open>2\<^sup>1\<^sup>0\<^sup>2\<^sup>3\<close> the float mean is infinite.
\<close>

theorem upload_statistics_counterexample:
  "(\<exists>p s'. upload (empty_store True) 1 ''user'' (Some cancelling_csv) = (Created p, s') \<and>
      d_total_count p = 3 \<and> d_avg_flowrate p = Fin 0) \<and>
   column_mean cancelling_frame ''Flowrate'' = 1 / 3 \<and>
   float_mean huge_frame ''Flowrate'' = PInf"
proof -
  let ?s = "empty_store True"
  have 1: "file_name cancelling_csv \<noteq> []" by (simp add: cancelling_csv_def)
  have 2: "endswith (file_name cancelling_csv) ''.csv''"
    by (simp add: cancelling_csv_def endswith_def)
  have 3: "read_csv cancelling_csv = Inr cancelling_frame" by (simp add: cancelling_csv_def)
  have 4: "set required_cols \<subseteq> set (columns cancelling_frame)"
    by (simp add: cancelling_frame_def)
  have 5: "rows cancelling_frame \<noteq> []" by (simp add: cancelling_frame_def)
  have 6: "list_all numeric_row (rows cancelling_frame)"
    by (simp add: cancelling_frame_def numeric_row_def pump_row_def valve_row_def)
  have 7: "nan_ok ?s \<or>
           (float_mean cancelling_frame ''Flowrate'' \<noteq> NaN \<and>
            float_mean cancelling_frame ''Pressure'' \<noteq> NaN \<and>
            float_mean cancelling_frame ''Temperature'' \<noteq> NaN)"
    by (simp add: empty_store_def)
  have l: "length (rows cancelling_frame) = 3" by (simp add: cancelling_frame_def)
  have m: "float_mean cancelling_frame ''Flowrate'' = Fin 0"
    by (simp add: float_mean_def cancelling_frame_def pump_row_def valve_row_def float_defs)
  from upload_valid_steps [OF 1 2 3 4 5 6 7, of "''user''" 1] obtain d s1 objs s2 where
    c: "create ?s (file_name cancelling_csv) ''user'' 1 (length (rows cancelling_frame))
          (float_mean cancelling_frame ''Flowrate'') (float_mean cancelling_frame ''Pressure'')
          (float_mean cancelling_frame ''Temperature'') = (Inr d, s1)" and
    b: "bulk_create s1 objs = (Inr (), s2)" and
    u: "upload ?s 1 ''user'' (Some cancelling_csv) =
          (case keep_last_5 s2 of
             (Inl e, s3) \<Rightarrow> (ErrorProcessingCsv e, s3)
           | (Inr v, s3) \<Rightarrow> (Created (DatasetDetailSerializer s3 d), s3))"
    by blast
  note c' = create_Inr [OF c]
  have "locked s2 = {}"
    using c'(12) bulk_create_Inr(5) [OF b] by (simp add: empty_store_def)
  from delete_old_unlocked [OF this, of "drop 5 (objects_all s2)"] obtain s3 where
    "keep_last_5 s2 = (Inr (), s3)" by (auto simp: keep_last_5_def)
  with u have "upload ?s 1 ''user'' (Some cancelling_csv)
      = (Created (DatasetDetailSerializer s3 d), s3)" by simp
  moreover have "d_total_count (DatasetDetailSerializer s3 d) = 3"
    using c'(8) l by (simp add: DatasetDetailSerializer_def)
  moreover have "d_avg_flowrate (DatasetDetailSerializer s3 d) = Fin 0"
    using c'(9) m by (simp add: DatasetDetailSerializer_def)
  ultimately have a: "\<exists>p s'. upload ?s 1 ''user'' (Some cancelling_csv) = (Created p, s') \<and>
      d_total_count p = 3 \<and> d_avg_flowrate p = Fin 0" by blast
  have e: "column_mean cancelling_frame ''Flowrate'' = 1 / 3"
    by (simp add: column_mean_def cancelling_frame_def pump_row_def valve_row_def)
  have "map (\<lambda>row. cell_value (row ''Flowrate'')) (rows huge_frame) = [2 ^ 1023, 2 ^ 1023]"
    unfolding huge_frame_def by (simp add: pump_row_def valve_row_def del: power_numeral)
  then have h: "float_mean huge_frame ''Flowrate'' = PInf"
    unfolding float_mean_def by (simp add: huge_frame_def row_order_sum_huge del: power_numeral)
  from a e h show ?thesis by blast
qed

section \<open>A failure while pruning\<close>

text \<open>
  When a file cannot be deleted the loop stops there: the datasets ranked before the first
  locked one are gone, as if the loop had run over them alone.
\<close>

lemma delete_old_stops:
  "list_ex (file_locked s) L \<Longrightarrow>
     \<exists>s'. delete_old L s = (Inl PermissionError, s') \<and>
          delete_old (takeWhile (\<lambda>d. \<not> file_locked s d) L) s = (Inr (), s')"
proof (induction L arbitrary: s)
  case Nil
  then show ?case by simp
next
  case (Cons d L)
  show ?case
  proof (cases "file_locked s d")
    case True
    from file_delete_locked [OF this] True show ?thesis by simp
  next
    case False
    from file_delete_unlocked [OF this] obtain s1 where
      fd: "file_delete d s = (Inr (), s1)" and l: "locked s1 = locked s" by blast
    have fl: "file_locked (model_delete d s1) = file_locked s"
      by (rule file_locked_cong) (simp add: l)
    from Cons.prems False have "list_ex (file_locked (model_delete d s1)) L"
      by (simp add: fl)
    from Cons.IH [OF this] fd False show ?thesis by (simp add: fl)
  qed
qed

text \<open>
  C2, as the code has it. The pruning loop runs inside the same \<^verbatim>\<open>try\<close> as the rest.
  Take a valid upload (required columns, at least one row, numbers in the numeric cells,
  means that the database takes) that is newer than every dataset in the store, and let
  the file of a dataset beyond the four newest be locked. The new dataset and its rows are
  stored, the deletion raises, and the catch-all handler answers 400 with
  \<^verbatim>\<open>Error processing CSV\<close>: the caller is told of a failure, while the new dataset and all
  its equipment rows stay in the store. The loop has by then deleted the datasets ranked
  before the first locked one, each with its file and its equipment rows; every other
  dataset, file and equipment row that was in the store stays.
\<close>

theorem upload_prune_failure:
  assumes "wf_store s"
      and "file_name f \<noteq> []" and "endswith (file_name f) ''.csv''"
      and "read_csv f = Inr df"
      and "set required_cols \<subseteq> set (columns df)"
      and "rows df \<noteq> []"
      and "list_all numeric_row (rows df)"
      and "list_all (\<lambda>d. uploaded_at d < now) (datasets s)"
      and "list_ex (file_locked s) (drop 4 (objects_all s))"
      and "nan_ok s \<or>
           (float_mean df ''Flowrate'' \<noteq> NaN \<and> float_mean df ''Pressure'' \<noteq> NaN \<and>
            float_mean df ''Temperature'' \<noteq> NaN)"
  shows "\<exists>s' d new. upload s now usr (Some f) = (ErrorProcessingCsv PermissionError, s') \<and>
           d \<in> set (datasets s') \<and> pk d = next_dataset_pk s \<and>
           total_count d = length (rows df) \<and>
           length (equipments_of s' d) = length (rows df) \<and>
           datasets s' = filter (\<lambda>r. pk r \<notin> pk ` set (pruned s)) (datasets s) @ [d] \<and>
           equipments s' =
             filter (\<lambda>(k, e). dataset e \<notin> pk ` set (pruned s)) (equipments s) @ new \<and>
           length new = length (rows df) \<and> list_all (\<lambda>(k, e). dataset e = pk d) new \<and>
           storage s' = insert (next_file s) (storage s) - file_keys (pruned s) \<and>
           log s' = log s @ concat (map effects_of (pruned s))"
proof -
  from upload_valid_steps [OF assms(2-7,10), of usr now] obtain d s1 objs s2 where
    c: "create s (file_name f) usr now (length (rows df)) (float_mean df ''Flowrate'')
             (float_mean df ''Pressure'') (float_mean df ''Temperature'') = (Inr d, s1)" and
    o: "length objs = length (rows df)" "list_all (\<lambda>e. dataset e = pk d) objs" and
    b: "bulk_create s1 objs = (Inr (), s2)" and
    u: "upload s now usr (Some f) =
             (case keep_last_5 s2 of
                (Inl e, s3) \<Rightarrow> (ErrorProcessingCsv e, s3)
              | (Inr v, s3) \<Rightarrow> (Created (DatasetDetailSerializer s3 d), s3))"
    by blast
  note c' = create_Inr [OF c]
  note b' = bulk_create_Inr [OF b]
  let ?L = "drop 4 (objects_all s)"
  let ?new = "zip [next_equipment_pk s1 ..< next_equipment_pk s1 + length objs] objs"
  have fl: "file_locked s2 = file_locked s"
    by (rule file_locked_cong) (simp add: c'(12) b'(5))
  with assms(9) have "list_ex (file_locked s2) ?L" by simp
  from delete_old_stops [OF this] obtain s' where
    f: "delete_old ?L s2 = (Inl PermissionError, s')" and
    g: "delete_old (pruned s) s2 = (Inr (), s')"
    by (auto simp: fl pruned_def)
  obtain r where k0: "keep_last_5 s2 = (r, s')" "keep_last_5 s2 = delete_old ?L s2"
    using newest_kept(1) [OF assms(1) c o(2) b assms(8)] f
    by (cases "keep_last_5 s2") auto
  note nk = newest_kept [OF assms(1) c o(2) b assms(8) k0(1)]
  from u nk(1) f have 1: "upload s now usr (Some f) = (ErrorProcessingCsv PermissionError, s')"
    by simp
  have sub: "set (pruned s) \<subseteq> set ?L"
    unfolding pruned_def by (auto dest: set_takeWhileD)
  with nk(2) have fresh: "pk d \<notin> pk ` set (pruned s)" by auto
  note g' = delete_old_Inr [OF g]
  have 2: "datasets s' = filter (\<lambda>r. pk r \<notin> pk ` set (pruned s)) (datasets s) @ [d]"
    using g' fresh c'(1) b'(1) by simp
  have "filter (\<lambda>(k, e). dataset e \<notin> pk ` set (pruned s)) ?new = ?new"
    using o(2) fresh by (auto simp: filter_id_conv list_all_iff dest: set_zip_rightD)
  then have 3: "equipments s' =
      filter (\<lambda>(k, e). dataset e \<notin> pk ` set (pruned s)) (equipments s) @ ?new"
    using g' b'(6) c'(6) by simp
  have 4: "length ?new = length (rows df)" using o(1) by simp
  have 5: "list_all (\<lambda>(k, e). dataset e = pk d) ?new"
    using o(2) by (auto simp: list_all_iff dest: set_zip_rightD)
  have 6: "storage s' = insert (next_file s) (storage s) - file_keys (pruned s)"
    using g' c'(4) b'(2) by simp
  have 7: "log s' = log s @ concat (map effects_of (pruned s))"
    using g' c'(5) b'(3) by simp
  have 8: "length (equipments_of s' d) = length (rows df)" using nk(4) o(1) by simp
  from 1 nk(3) c'(2,8) 8 2 3 4 5 6 7 show ?thesis by blast
qed

text \<open>
  With the file of the oldest of five datasets locked, the sixth upload of the sample is
  answered 400 and leaves six datasets. The seventh is answered 400 as well: it deletes
  the dataset ranked before the locked one, with its file and rows, and leaves six again.
\<close>

theorem upload_prune_failure_counterexample:
  "fst (upload store5_locked 6 ''user'' (Some sample_csv)) = ErrorProcessingCsv PermissionError \<and>
   datasets (snd (upload store5_locked 6 ''user'' (Some sample_csv)))
     = map sample_dataset [0, 1, 2, 3, 4, 5] \<and>
   equipments (snd (upload store5_locked 6 ''user'' (Some sample_csv)))
     = concat (map sample_equipments [0, 1, 2, 3, 4, 5]) \<and>
   upload (snd (upload store5_locked 6 ''user'' (Some sample_csv))) 7 ''user'' (Some sample_csv)
     = (ErrorProcessingCsv PermissionError,
        \<lparr>datasets = map sample_dataset [0, 2, 3, 4, 5, 6],
         equipments = concat (map sample_equipments [0, 2, 3, 4, 5, 6]),
         storage = {0, 2, 3, 4, 5, 6},
         next_dataset_pk = 7, next_equipment_pk = 14, next_file = 7, nan_ok = True,
         locked = {0}, log = [FileDeleted 1, RowDeleted 1]\<rparr>)"
  by (simp add: upload_defs sample_defs store5_locked_def) auto

theorem upload_prune_failure_witness:
  "wf_store store5_locked \<and> list_all numeric_row [pump_row, valve_row] \<and>
   list_all (\<lambda>d. uploaded_at d < 6) (datasets store5_locked) \<and>
   list_ex (file_locked store5_locked) (drop 4 (objects_all store5_locked)) \<and>
   nan_ok store5_locked \<and> pruned store5_locked = [] \<and>
   (\<exists>s' d new. upload store5_locked 6 ''user'' (Some sample_csv)
              = (ErrorProcessingCsv PermissionError, s') \<and>
           d \<in> set (datasets s') \<and> pk d = 5 \<and> total_count d = 2 \<and>
           length (equipments_of s' d) = 2 \<and>
           datasets s' = datasets store5_locked @ [d] \<and>
           equipments s' = equipments store5_locked @ new \<and>
           length new = 2 \<and> list_all (\<lambda>(k, e). dataset e = pk d) new \<and>
           storage s' = {0, 1, 2, 3, 4, 5} \<and> log s' = [])"
proof -
  let ?df = "\<lparr>columns = required_cols, rows = [pump_row, valve_row],
              series_sum = row_order_sum\<rparr>"
  have 0: "wf_store store5_locked"
    using wf_store5 by (simp add: wf_store_def store5_locked_def)
  have 1: "file_name sample_csv \<noteq> []" by (simp add: sample_csv_def)
  have 2: "endswith (file_name sample_csv) ''.csv''"
    by (simp add: sample_csv_def endswith_def)
  have 3: "read_csv sample_csv = Inr ?df" by (simp add: sample_csv_def)
  have 4: "set required_cols \<subseteq> set (columns ?df)" by simp
  have 5: "rows ?df \<noteq> []" by simp
  have 6: "list_all numeric_row (rows ?df)"
    by (simp add: numeric_row_def pump_row_def valve_row_def)
  have 7: "list_all (\<lambda>d. uploaded_at d < 6) (datasets store5_locked)"
    by (simp add: store5_locked_def store5_def sample_dataset_def)
  have 8: "list_ex (file_locked store5_locked) (drop 4 (objects_all store5_locked))"
    by (simp add: store5_locked_def store5_def sample_dataset_def objects_all_def
          file_locked_def)
  have 9: "nan_ok store5_locked" by (simp add: store5_locked_def store5_def)
  then have 10: "nan_ok store5_locked \<or>
           (float_mean ?df ''Flowrate'' \<noteq> NaN \<and> float_mean ?df ''Pressure'' \<noteq> NaN \<and>
            float_mean ?df ''Temperature'' \<noteq> NaN)" by simp
  have p: "pruned store5_locked = []"
    by (simp add: pruned_def store5_locked_def store5_def sample_dataset_def objects_all_def
          file_locked_def)
  have n: "next_dataset_pk store5_locked = 5" "next_file store5_locked = 5"
    "storage store5_locked = {0, 1, 2, 3, 4}" "log store5_locked = []"
    by (simp_all add: store5_locked_def store5_def)
  have l: "length (rows ?df) = 2" by simp
  from upload_prune_failure [OF 0 1 2 3 4 5 6 7 8 10, of "''user''"]
  obtain s' d new where "upload store5_locked 6 ''user'' (Some sample_csv)
              = (ErrorProcessingCsv PermissionError, s') \<and>
           d \<in> set (datasets s') \<and> pk d = 5 \<and> total_count d = 2 \<and>
           length (equipments_of s' d) = 2 \<and>
           datasets s' = datasets store5_locked @ [d] \<and>
           equipments s' = equipments store5_locked @ new \<and>
           length new = 2 \<and> list_all (\<lambda>(k, e). dataset e = pk d) new \<and>
           storage s' = insert 5 {0, 1, 2, 3, 4} \<and> log s' = []"
    unfolding n l p by (auto simp: file_keys_def)
  moreover have "insert 5 {0, 1, 2, 3, 4} = {0, 1, 2, 3, 4, 5::nat}" by auto
  ultimately have "\<exists>s' d new. upload store5_locked 6 ''user'' (Some sample_csv)
              = (ErrorProcessingCsv PermissionError, s') \<and>
           d \<in> set (datasets s') \<and> pk d = 5 \<and> total_count d = 2 \<and>
           length (equipments_of s' d) = 2 \<and>
           datasets s' = datasets store5_locked @ [d] \<and>
           equipments s' = equipments store5_locked @ new \<and>
           length new = 2 \<and> list_all (\<lambda>(k, e). dataset e = pk d) new \<and>
           storage s' = {0, 1, 2, 3, 4, 5} \<and> log s' = []" by metis
  with 0 6 7 8 9 p show ?thesis by simp
qed

section \<open>The type distribution\<close>

lemma map_of_bump:
  "map_of (bump d t) = (map_of d)(t \<mapsto> (case map_of d t of None \<Rightarrow> 0 | Some c \<Rightarrow> c) + 1)"
  by (simp add: bump_def update_conv')

lemma distinct_bump: "distinct (map fst d) \<Longrightarrow> distinct (map fst (bump d t))"
  by (simp add: bump_def distinct_update)

lemma keys_bump: "fst ` set (bump d t) = insert t (fst ` set d)"
  by (simp add: bump_def dom_update)

lemma distinct_count_types:
  "distinct (map fst d) \<Longrightarrow> distinct (map fst (count_types d ts))"
  by (induction ts arbitrary: d) (simp_all add: distinct_bump)

lemma keys_count_types: "fst ` set (count_types d ts) = fst ` set d \<union> set ts"
  by (induction ts arbitrary: d) (auto simp: keys_bump)

lemma map_of_count_types:
  "map_of (count_types d ts) t =
     (if t \<in> set ts \<or> map_of d t \<noteq> None
      then Some ((case map_of d t of None \<Rightarrow> 0 | Some c \<Rightarrow> c) + length (filter (\<lambda>x. x = t) ts))
      else None)"
proof (induction ts arbitrary: d)
  case Nil
  then show ?case by (auto split: option.splits)
next
  case (Cons a ts)
  show ?case
    by (simp add: Cons.IH map_of_bump split: option.splits)
qed

text \<open>
  C7. The distribution computed from the equipment rows of a dataset has each type that
  occurs in the rows as a key, once, and no other key; the value of a type is the number
  of rows of that type, which is at least 1. For rows of the types Pump, Valve, Pump it
  is Pump 2, Valve 1.
\<close>

theorem type_distribution_counts:
  "distinct (map fst (type_distribution eqs)) \<and>
   set (map fst (type_distribution eqs)) = set (map (\<lambda>eq. eq_type (snd eq)) eqs) \<and>
   map_of (type_distribution eqs) t =
     (if t \<in> set (map (\<lambda>eq. eq_type (snd eq)) eqs)
      then Some (length (filter (\<lambda>eq. eq_type (snd eq) = t) eqs)) else None) \<and>
   list_all (\<lambda>item. 1 \<le> snd item) (type_distribution eqs) \<and>
   type_distribution pump_valve_pump = [(''Pump'', 2), (''Valve'', 1)]"
proof -
  let ?ts = "map (\<lambda>eq. eq_type (snd eq)) eqs"
  have 1: "distinct (map fst (type_distribution eqs))"
    by (simp add: type_distribution_def distinct_count_types)
  have 2: "set (map fst (type_distribution eqs)) = set ?ts"
    using keys_count_types [of "[]" ?ts] by (simp add: type_distribution_def)
  have len: "length (filter (\<lambda>x. x = t) ?ts) = length (filter (\<lambda>eq. eq_type (snd eq) = t) eqs)" for t
    by (simp add: filter_map o_def)
  have 3: "map_of (type_distribution eqs) t =
     (if t \<in> set ?ts then Some (length (filter (\<lambda>eq. eq_type (snd eq) = t) eqs)) else None)" for t
    using map_of_count_types [of "[]" ?ts t] len [of t] by (simp add: type_distribution_def)
  have 4: "list_all (\<lambda>item. 1 \<le> snd item) (type_distribution eqs)"
    unfolding list_all_iff
  proof
    fix item assume i: "item \<in> set (type_distribution eqs)"
    then have "map_of (type_distribution eqs) (fst item) = Some (snd item)"
      using 1 by simp
    with 3 [of "fst item"] have t: "fst item \<in> set ?ts"
      and c: "snd item = length (filter (\<lambda>eq. eq_type (snd eq) = fst item) eqs)"
      by (auto split: if_splits)
    from t obtain eq where "eq \<in> set eqs" "eq_type (snd eq) = fst item" by auto
    then have "filter (\<lambda>eq. eq_type (snd eq) = fst item) eqs \<noteq> []"
      by (auto simp: filter_empty_conv)
    with c show "1 \<le> snd item" by (simp add: Suc_le_eq)
  qed
  have 5: "type_distribution pump_valve_pump = [(''Pump'', 2), (''Valve'', 1)]"
    by (simp add: type_distribution_def pump_valve_pump_def bump_def)
  from 1 2 3 4 5 show ?thesis by blast
qed

theorem type_distribution_counts_witness:
  "map_of (type_distribution pump_valve_pump) ''Pump'' = Some 2 \<and>
   map_of (type_distribution pump_valve_pump) ''Valve'' = Some 1 \<and>
   map_of (type_distribution pump_valve_pump) ''Tank'' = None"
  using type_distribution_counts [of pump_valve_pump "''Pump''"]
    type_distribution_counts [of pump_valve_pump "''Valve''"]
    type_distribution_counts [of pump_valve_pump "''Tank''"]
  by (simp add: pump_valve_pump_def)

section \<open>Rounded and stored means\<close>

lemma round_half_even_bound: "\<bar>of_int (round_half_even x) - x\<bar> \<le> 1 / 2"
proof -
  have "of_int \<lfloor>x\<rfloor> \<le> x" "x < of_int \<lfloor>x\<rfloor> + 1" by linarith+
  then show ?thesis
    by (auto simp: round_half_even_def Let_def)
qed

lemma py_round_rounded: "rounded_to n x (py_round x n)"
proof (cases x)
  case NaN
  then show ?thesis by (simp add: rounded_to_def)
next
  case PInf
  then show ?thesis by (simp add: rounded_to_def)
next
  case NInf
  then show ?thesis by (simp add: rounded_to_def)
next
  case (Fin v)
  let ?k = "round_half_even (v * 10 ^ n)"
  have p: "(10::real) ^ n > 0" by simp
  have "\<bar>of_int ?k / 10 ^ n - v\<bar> * 10 ^ n = \<bar>(of_int ?k / 10 ^ n - v) * 10 ^ n\<bar>"
    using p by (simp add: abs_mult)
  also have "\<dots> = \<bar>of_int ?k - v * 10 ^ n\<bar>"
    using p by (simp add: algebra_simps)
  also have "\<dots> \<le> 1 / 2" by (rule round_half_even_bound)
  finally show ?thesis using Fin by (simp add: rounded_to_def)
qed

text \<open>
  C10. For a dataset of the store, \<^verbatim>\<open>summary\<close> returns the three means rounded to two
  decimals; \<^verbatim>\<open>retrieve\<close> (the detail serializer) and \<^verbatim>\<open>list\<close> and \<^verbatim>\<open>history\<close> (the
  summary serializer) return the stored means as they are; and none of the four views
  changes the store.
\<close>

theorem summary_rounds_serializers_keep:
  assumes "get_object s k = Some d"
  shows "\<exists>m dd. summary s k = (Ok m, s) \<and> retrieve s k = (Ok dd, s) \<and>
           m_flowrate m = py_round (avg_flowrate d) 2 \<and>
           m_pressure m = py_round (avg_pressure d) 2 \<and>
           m_temperature m = py_round (avg_temperature d) 2 \<and>
           rounded_to 2 (avg_flowrate d) (m_flowrate m) \<and>
           rounded_to 2 (avg_pressure d) (m_pressure m) \<and>
           rounded_to 2 (avg_temperature d) (m_temperature m) \<and>
           d_avg_flowrate dd = avg_flowrate d \<and> d_avg_pressure dd = avg_pressure d \<and>
           d_avg_temperature dd = avg_temperature d \<and>
           snd (history s) = s \<and> snd (list_view s) = s \<and>
           map s_avg_flowrate (fst (list_view s)) = map avg_flowrate (objects_all s) \<and>
           map s_avg_pressure (fst (list_view s)) = map avg_pressure (objects_all s) \<and>
           map s_avg_temperature (fst (list_view s)) = map avg_temperature (objects_all s) \<and>
           map s_avg_flowrate (fst (history s)) = map avg_flowrate (take 5 (objects_all s)) \<and>
           map s_avg_pressure (fst (history s)) = map avg_pressure (take 5 (objects_all s)) \<and>
           map s_avg_temperature (fst (history s))
             = map avg_temperature (take 5 (objects_all s))"
  using assms py_round_rounded [of 2 "avg_flowrate d"] py_round_rounded [of 2 "avg_pressure d"]
    py_round_rounded [of 2 "avg_temperature d"]
  by (simp add: summary_def retrieve_def history_def list_view_def Let_def
        DatasetDetailSerializer_def DatasetSummarySerializer_def o_def)

theorem summary_rounds_serializers_keep_witness:
  "get_object rounding_store 0 = Some (hd (datasets rounding_store)) \<and>
   (\<exists>m dd. summary rounding_store 0 = (Ok m, rounding_store) \<and>
      retrieve rounding_store 0 = (Ok dd, rounding_store) \<and>
      m_flowrate m = Fin 10.46 \<and> m_pressure m = Fin 5.5 \<and> m_temperature m = Fin 99.99 \<and>
      d_avg_flowrate dd = Fin 10.456 \<and> d_avg_pressure dd = Fin 5.5 \<and>
      d_avg_temperature dd = Fin 99.994) \<and>
   map s_avg_flowrate (fst (history rounding_store)) = [Fin 10.456]"
proof -
  let ?d = "hd (datasets rounding_store)"
  have g: "get_object rounding_store 0 = Some ?d"
    by (simp add: get_object_def rounding_store_def)
  have r: "py_round (avg_flowrate ?d) 2 = Fin 10.46" "py_round (avg_pressure ?d) 2 = Fin 5.5"
    "py_round (avg_temperature ?d) 2 = Fin 99.99"
    by (simp_all add: rounding_store_def round_half_even_def Let_def)
  have a: "avg_flowrate ?d = Fin 10.456" "avg_pressure ?d = Fin 5.5"
    "avg_temperature ?d = Fin 99.994"
    by (simp_all add: rounding_store_def)
  have o: "objects_all rounding_store = [?d]"
    by (simp add: objects_all_def rounding_store_def)
  from summary_rounds_serializers_keep [OF g] g r a o show ?thesis by auto
qed

section \<open>The report\<close>

lemma map_filter_append:
  "List.map_filter f (xs @ ys) = List.map_filter f xs @ List.map_filter f ys"
  by (simp add: List.map_filter_def)

lemma type_lines_draw_types:
  "List.map_filter type_line (fst (draw_types items y)) = map fst items"
proof (induction items arbitrary: y)
  case Nil
  then show ?case by simp
next
  case (Cons item items)
  from Cons.IH [of "fsub y (inches 0.25)"] show ?case
    by (auto split: prod.splits)
qed

lemma type_lines_draw_head: "List.map_filter type_line (fst (draw_head d)) = []"
  by (simp add: draw_head_def Let_def)

lemma type_lines_draw_table_head: "List.map_filter type_line (fst (draw_table_head y)) = []"
  by (simp add: draw_table_head_def Let_def map_filter_append)

lemma type_lines_draw_rows: "List.map_filter type_line (draw_rows eqs y) = []"
proof (induction eqs arbitrary: y)
  case Nil
  then show ?case by simp
next
  case (Cons eq eqs)
  then show ?case
    by (simp add: Let_def map_filter_append)
qed

lemma type_lines_draw_foot: "List.map_filter type_line draw_foot = []"
  by (simp add: draw_foot_def)

lemma sorted_fst_sort: "sorted (map fst (sort (xs :: (string \<times> nat) list)))"
proof -
  have "sorted (sort xs)" by simp
  then have "sorted_wrt (\<lambda>a b. fst a \<le> fst b) (sort xs)"
    by (rule sorted_wrt_mono_rel [rotated]) (auto simp: less_eq_prod_def)
  then show ?thesis by (simp add: sorted_map)
qed

lemma distinct_fst_sort:
  "distinct (map fst xs) \<Longrightarrow> distinct (map fst (sort (xs :: (string \<times> nat) list)))"
  by (simp add: distinct_map)

text \<open>
  The head of a report and where it leaves \<^verbatim>\<open>y\<close>; and the heading of the table when no
  distribution line came before it: no new page, and \<^verbatim>\<open>y\<close> on from just below 450.
\<close>

lemma draw_head_value:
  "draw_head d = (take 15 (empty_report d), 4338233078552985 / 8796093022208)"
  by (simp add: draw_head_def empty_report_def Let_def height_def inches_values
        inches_values_normal fsub_values)

lemma draw_table_head_value:
  "draw_table_head (1037059367318323 / 2199023255552)
     = (take 10 (drop 16 (empty_report d)), 1804958288157081 / 4398046511104)"
  by (simp add: draw_table_head_def empty_report_def Let_def height_def inches_values
        inches_values_normal fsub_values)

lemma draw_foot_value: "draw_foot = drop 26 (empty_report d)"
  by (simp add: draw_foot_def empty_report_def inches_values inches_values_normal)

lemma empty_report_parts:
  "take 15 (empty_report d) @ [SetFont ''Helvetica'' 11] @ take 10 (drop 16 (empty_report d))
     @ drop 26 (empty_report d) = empty_report d"
  by (simp add: empty_report_def)

text \<open>
  C9. For a dataset of the store the report is produced, and the store is not changed.
  The lines of its distribution list are the types of the dataset's equipment rows, each
  once, in ascending order. When the dataset has no equipment row the document is, call
  by call and coordinate by coordinate, the head (title, dataset information, summary
  statistics, heading of the distribution, font of the distribution lines), no
  distribution line, the heading of the equipment table with no table line under it, and
  the foot that ends the page and saves the document.
\<close>

theorem generate_pdf_report:
  assumes "get_object s k = Some d"
  shows "\<exists>doc. generate_pdf s k = (Ok doc, s) \<and>
           List.map_filter type_line (content doc)
             = map fst (sort (type_distribution (equipments_of s d))) \<and>
           sorted (List.map_filter type_line (content doc)) \<and>
           distinct (List.map_filter type_line (content doc)) \<and>
           set (List.map_filter type_line (content doc))
             = set (map (\<lambda>eq. eq_type (snd eq)) (equipments_of s d)) \<and>
           (equipments_of s d = [] \<longrightarrow> content doc = empty_report d)"
proof -
  let ?eqs = "equipments_of s d"
  let ?td = "type_distribution ?eqs"
  let ?head = "take 15 (empty_report d)"
  let ?y1 = "1037059367318323 / 2199023255552 :: real"
  obtain type_ops y where t: "draw_types (sort ?td) ?y1 = (type_ops, y)"
    by (cases "draw_types (sort ?td) ?y1")
  obtain table_ops y' where h: "draw_table_head y = (table_ops, y')"
    by (cases "draw_table_head y")
  let ?doc = "\<lparr>content = ?head @ [SetFont ''Helvetica'' 11] @ type_ops @ table_ops
                          @ draw_rows ?eqs y' @ draw_foot,
               filename = [Lit ''equipment_report_'', IntF (pk d), Lit ''.pdf'']\<rparr>"
  have g: "generate_pdf s k = (Ok ?doc, s)"
    using assms t h
    by (simp add: generate_pdf_def Let_def draw_head_value inches_values_normal fsub_values)
  have hd: "List.map_filter type_line ?head = []"
    using type_lines_draw_head [of d] by (simp only: draw_head_value fst_conv)
  have tl: "List.map_filter type_line type_ops = map fst (sort ?td)"
    using type_lines_draw_types [of "sort ?td" ?y1] t by simp
  have hl: "List.map_filter type_line table_ops = []"
    using type_lines_draw_table_head [of y] h by simp
  have f11: "List.map_filter type_line [SetFont ''Helvetica'' 11] = []"
    by (simp add: List.map_filter_def)
  have 1: "List.map_filter type_line (content ?doc) = map fst (sort ?td)"
    by (simp only: file_response.simps map_filter_append hd f11 tl hl type_lines_draw_rows
          type_lines_draw_foot append_Nil append_Nil2)
  have 2: "sorted (List.map_filter type_line (content ?doc))"
    unfolding 1 by (rule sorted_fst_sort)
  have dt: "distinct (map fst ?td)"
    by (simp add: type_distribution_def distinct_count_types)
  have 3: "distinct (List.map_filter type_line (content ?doc))"
    unfolding 1 by (rule distinct_fst_sort [OF dt])
  have "set (map fst (sort ?td)) = set (map fst ?td)" by simp
  also have "\<dots> = set (map (\<lambda>eq. eq_type (snd eq)) ?eqs)"
    using keys_count_types [of "[]" "map (\<lambda>eq. eq_type (snd eq)) ?eqs"]
    by (simp add: type_distribution_def)
  finally have 4: "set (List.map_filter type_line (content ?doc))
      = set (map (\<lambda>eq. eq_type (snd eq)) ?eqs)" unfolding 1 .
  have 5: "?eqs = [] \<longrightarrow> content ?doc = empty_report d"
  proof
    assume e: "?eqs = []"
    then have "?td = []" by (simp add: type_distribution_def)
    with t have "type_ops = []" "y = ?y1" by simp_all
    with h draw_table_head_value [of d]
    have "table_ops = take 10 (drop 16 (empty_report d))" by simp
    with e \<open>type_ops = []\<close> have "content ?doc =
        ?head @ [SetFont ''Helvetica'' 11] @ take 10 (drop 16 (empty_report d))
          @ drop 26 (empty_report d)"
      by (simp only: file_response.simps draw_rows.simps append_Nil draw_foot_value [of d])
    then show "content ?doc = empty_report d" by (simp only: empty_report_parts)
  qed
  from g 1 2 3 4 5 show ?thesis by blast
qed

theorem generate_pdf_report_witness:
  "get_object no_rows_store 0 = Some (hd (datasets no_rows_store)) \<and>
   equipments_of no_rows_store (hd (datasets no_rows_store)) = [] \<and>
   (\<exists>doc. generate_pdf no_rows_store 0 = (Ok doc, no_rows_store) \<and>
      content doc = empty_report (hd (datasets no_rows_store)) \<and>
      List.map_filter type_line (content doc) = []) \<and>
   (\<exists>doc. generate_pdf rounding_store 0 = (Ok doc, rounding_store) \<and>
      List.map_filter type_line (content doc) = [''Pump'', ''Valve''])"
proof -
  let ?d = "hd (datasets no_rows_store)"
  let ?e = "hd (datasets rounding_store)"
  have g: "get_object no_rows_store 0 = Some ?d"
    by (simp add: get_object_def no_rows_store_def)
  have e: "equipments_of no_rows_store ?d = []"
    by (simp add: equipments_of_def no_rows_store_def)
  have g': "get_object rounding_store 0 = Some ?e"
    by (simp add: get_object_def rounding_store_def)
  have t: "map fst (sort (type_distribution (equipments_of rounding_store ?e)))
             = [''Pump'', ''Valve'']"
    by (simp add: equipments_of_def rounding_store_def pump_valve_pump_def
          type_distribution_def bump_def)
  from generate_pdf_report [OF g] e have 1:
    "\<exists>doc. generate_pdf no_rows_store 0 = (Ok doc, no_rows_store) \<and>
      content doc = empty_report ?d \<and>
      List.map_filter type_line (content doc) = []"
    by (auto simp: type_distribution_def)
  from generate_pdf_report [OF g'] t have 2:
    "\<exists>doc. generate_pdf rounding_store 0 = (Ok doc, rounding_store) \<and>
      List.map_filter type_line (content doc) = [''Pump'', ''Valve'']"
    by auto
  from g e 1 2 show ?thesis by blast
qed

end
